theory Spec2Isabelle
  imports Complex_Main
begin

section \<open>Camera timestamp extraction: values, errors and array primitives\<close>

text \<open>
  The module \<^verbatim>\<open>ibllib/io/extractors/camera.py\<close> works on numpy arrays of
  double-precision times. A time is modelled as a value of \<open>fval\<close>: a finite value
  (a real number; rounding and signed zeros are not modelled) or one of the three
  special values \<open>+inf\<close>, \<open>-inf\<close> and \<open>nan\<close>, with the arithmetic and the
  comparisons that IEEE 754 gives them.
\<close>

datatype fval = Fin real | PInf | NInf | NaN

fun isfinite :: "fval \<Rightarrow> bool" where
  "isfinite (Fin a) = True"
| "isfinite PInf = False"
| "isfinite NInf = False"
| "isfinite NaN = False"

fun fneg :: "fval \<Rightarrow> fval" where
  "fneg (Fin a) = Fin (- a)"
| "fneg PInf = NInf"
| "fneg NInf = PInf"
| "fneg NaN = NaN"

fun fadd :: "fval \<Rightarrow> fval \<Rightarrow> fval" where
  "fadd NaN _ = NaN"
| "fadd _ NaN = NaN"
| "fadd (Fin a) (Fin b) = Fin (a + b)"
| "fadd PInf NInf = NaN"
| "fadd NInf PInf = NaN"
| "fadd PInf _ = PInf"
| "fadd NInf _ = NInf"
| "fadd _ PInf = PInf"
| "fadd _ NInf = NInf"

definition fsub :: "fval \<Rightarrow> fval \<Rightarrow> fval" where
  "fsub a b = fadd a (fneg b)"

fun fabs :: "fval \<Rightarrow> fval" where
  "fabs (Fin a) = Fin \<bar>a\<bar>"
| "fabs PInf = PInf"
| "fabs NInf = PInf"
| "fabs NaN = NaN"

text \<open>\<open>flt a b\<close> is the comparison \<^verbatim>\<open>a < b\<close>: false whenever an operand is nan.\<close>

fun flt :: "fval \<Rightarrow> fval \<Rightarrow> bool" where
  "flt NaN _ = False"
| "flt _ NaN = False"
| "flt (Fin a) (Fin b) = (a < b)"
| "flt NInf NInf = False"
| "flt NInf _ = True"
| "flt _ NInf = False"
| "flt PInf _ = False"
| "flt _ PInf = True"

text \<open>Python exceptions are values: the exception class and its message.\<close>

datatype error =
    AssertionError string
  | ValueError string
  | IndexError string
  | OverflowError string
  | SyncError string
  | Undefined string

definition py_assert :: "bool \<Rightarrow> string \<Rightarrow> (error + 'a) \<Rightarrow> error + 'a" where
  "py_assert c msg k = (if c then k else Inl (AssertionError msg))"

definition ebind :: "error + 'a \<Rightarrow> ('a \<Rightarrow> error + 'b) \<Rightarrow> error + 'b" where
  "ebind m f = (case m of Inl e \<Rightarrow> Inl e | Inr a \<Rightarrow> f a)"

text \<open>\<^verbatim>\<open>str.lower\<close> on ASCII strings.\<close>

definition lower_char :: "char \<Rightarrow> char" where
  "lower_char c =
     (let n = (of_char c :: nat) in if 65 \<le> n \<and> n \<le> 90 then char_of (n + 32) else c)"

definition lower :: "string \<Rightarrow> string" where
  "lower s = map lower_char s"

text \<open>
  \<^verbatim>\<open>ndarray.min\<close>: nan propagates; an empty array raises \<^verbatim>\<open>ValueError\<close>.
\<close>

definition fmin2 :: "fval \<Rightarrow> fval \<Rightarrow> fval" where
  "fmin2 a b = (if a = NaN \<or> b = NaN then NaN else if flt b a then b else a)"

fun np_min :: "fval list \<Rightarrow> error + fval" where
  "np_min [] = Inl (ValueError ''zero-size array to reduction operation minimum'')"
| "np_min (x # xs) = Inr (foldl fmin2 x xs)"

text \<open>\<^verbatim>\<open>np.where(cond)[0][0]\<close>: the first index where the condition holds.\<close>

fun first_where :: "('a \<Rightarrow> bool) \<Rightarrow> 'a list \<Rightarrow> error + nat" where
  "first_where P [] = Inl (IndexError ''index 0 is out of bounds for axis 0 with size 0'')"
| "first_where P (x # xs) =
     (if P x then Inr 0 else ebind (first_where P xs) (\<lambda>i. Inr (Suc i)))"

text \<open>\<^verbatim>\<open>ndarray.argmin\<close>: the first index of the minimum (of the first nan if there is one).\<close>

definition np_argmin :: "fval list \<Rightarrow> error + nat" where
  "np_argmin dx = ebind (np_min dx) (\<lambda>m. first_where (\<lambda>d. d = m) dx)"

section \<open>attribute\_times\<close>

text \<open>
  \<^verbatim>\<open>stack = np.ma.masked_invalid(arr, copy=False)\<close> is the array \<open>arr\<close> with a
  boolean mask, true at the entries that are not finite. \<^verbatim>\<open>stack.filled()\<close> is
  the data with every masked entry replaced by the fill value of the masked array, which
  for an array of floats is numpy's default \<^verbatim>\<open>1e20\<close>.
\<close>

definition fill_value :: fval where
  "fill_value = Fin 100000000000000000000"

definition masked_invalid :: "fval list \<Rightarrow> bool list" where
  "masked_invalid arr = map (\<lambda>v. \<not> isfinite v) arr"

definition filled :: "fval list \<Rightarrow> bool list \<Rightarrow> fval list" where
  "filled arr msk = map (\<lambda>(v, m). if m then fill_value else v) (zip arr msk)"

text \<open>
  The loop \<^verbatim>\<open>for i, x in enumerate(events)\<close>; the state is the mask of
  \<open>stack\<close> and the output array \<open>assigned\<close>.
\<close>

fun attribute_loop ::
  "fval list \<Rightarrow> fval \<Rightarrow> bool \<Rightarrow> string \<Rightarrow> nat \<Rightarrow> fval list \<Rightarrow> bool list \<times> int list
     \<Rightarrow> error + bool list \<times> int list" where
  "attribute_loop arr tol injective take' i [] st = Inr st"
| "attribute_loop arr tol injective take' i (x # xs) (msk, assigned) =
     (let dx = map (\<lambda>v. fabs (fsub v x)) (filled arr msk) in
      ebind (np_min dx) (\<lambda>m.
        if flt m tol then
          ebind (if take' = ''first'' then first_where (\<lambda>d. flt d tol) dx else np_argmin dx)
            (\<lambda>idx. attribute_loop arr tol injective take' (Suc i) xs
                      (msk[idx := injective], assigned[i := int idx]))
        else attribute_loop arr tol injective take' (Suc i) xs (msk, assigned)))"

definition attribute_times ::
  "fval list \<Rightarrow> fval list \<Rightarrow> fval \<Rightarrow> bool \<Rightarrow> string \<Rightarrow> error + int list" where
  "attribute_times arr events tol injective take' =
     (let take' = lower take' in
      if take' \<noteq> ''first'' \<and> take' \<noteq> ''closest''
      then Inl (ValueError ''Parameter take must be either first or closest'')
      else ebind (attribute_loop arr tol injective take' 0 events
                    (masked_invalid arr, replicate (length events) (- 1)))
             (\<lambda>(msk, assigned). Inr assigned))"

section \<open>Array primitives used by the extractors\<close>

text \<open>\<^verbatim>\<open>np.diff\<close> on an array of integers and on an array of times.\<close>

fun np_diff_int :: "int list \<Rightarrow> int list" where
  "np_diff_int (x # y # xs) = (y - x) # np_diff_int (y # xs)"
| "np_diff_int _ = []"

fun np_diff :: "fval list \<Rightarrow> fval list" where
  "np_diff (x # y # xs) = fsub y x # np_diff (y # xs)"
| "np_diff _ = []"

text \<open>The slices \<^verbatim>\<open>a[::2]\<close> and \<^verbatim>\<open>a[1::2]\<close>.\<close>

fun evens :: "'a list \<Rightarrow> 'a list" where
  "evens [] = []"
| "evens [x] = [x]"
| "evens (x # y # xs) = x # evens xs"

definition odds :: "'a list \<Rightarrow> 'a list" where
  "odds xs = evens (tl xs)"

text \<open>Indexing with a boolean array of the same length: \<^verbatim>\<open>a[flags]\<close>.\<close>

definition bool_select :: "'a list \<Rightarrow> bool list \<Rightarrow> 'a list" where
  "bool_select a flags = map fst (filter snd (zip a flags))"

text \<open>
  Indexing with an integer, \<^verbatim>\<open>a[i]\<close>: a negative index counts from the end, an
  index out of range raises \<^verbatim>\<open>IndexError\<close>. Indexing with an integer array,
  \<^verbatim>\<open>a[idx]\<close>, does so for every entry.
\<close>

definition py_index :: "'a list \<Rightarrow> int \<Rightarrow> error + 'a" where
  "py_index a i =
     (let n = int (length a); j = (if i < 0 then n + i else i)
      in if 0 \<le> j \<and> j < n then Inr (a ! nat j) else Inl (IndexError ''index out of bounds''))"

fun py_take :: "'a list \<Rightarrow> int list \<Rightarrow> error + 'a list" where
  "py_take a [] = Inr []"
| "py_take a (i # is) =
     ebind (py_index a i) (\<lambda>v. ebind (py_take a is) (\<lambda>vs. Inr (v # vs)))"

text \<open>
  The assignment \<^verbatim>\<open>a[start::2] = vals\<close>: the values must be as many as the
  slice has places, or be a single value, which is broadcast. The slice of an array of
  length \<open>n\<close> has the places \<open>start, start + 2, ...\<close> below \<open>n\<close>.
\<close>

definition on_stride :: "nat \<Rightarrow> nat \<Rightarrow> bool" where
  "on_stride start k = (start \<le> k \<and> even (k - start))"

definition stride_size :: "nat \<Rightarrow> nat \<Rightarrow> nat" where
  "stride_size start n = (n + 1 - start) div 2"

definition set_stride :: "fval list \<Rightarrow> nat \<Rightarrow> fval list \<Rightarrow> error + fval list" where
  "set_stride a start vals =
     (if length vals = stride_size start (length a)
        then Inr (map (\<lambda>k. if on_stride start k then vals ! ((k - start) div 2) else a ! k)
                   [0..<length a])
      else if length vals = 1
        then Inr (map (\<lambda>k. if on_stride start k then vals ! 0 else a ! k) [0..<length a])
      else Inl (ValueError ''could not broadcast input array''))"

section \<open>groom\_pin\_state\<close>

text \<open>
  The \<open>audio\<close> argument is a dictionary with the arrays \<open>times\<close> and
  \<open>polarities\<close>. The warnings sent to the logger are returned with the result;
  \<open>WarningCount n s\<close> is the message that starts with the number \<open>n\<close>.
  The \<open>display\<close> argument only draws a figure and is left out.
\<close>

record audio_ttls =
  times :: "fval list"
  polarities :: "int list"

datatype warning = Warning string | WarningCount nat string

definition flips :: "bool list \<Rightarrow> bool list" where
  "flips gpio = False # map (\<lambda>d. d \<noteq> 0) (np_diff_int (map of_bool gpio))"

definition low2high :: "bool list \<Rightarrow> bool list" where
  "low2high gpio = False # map (\<lambda>d. d = 1) (np_diff_int (map of_bool gpio))"

definition high2low :: "bool list \<Rightarrow> bool list" where
  "high2low gpio = False # map (\<lambda>d. d = - 1) (np_diff_int (map of_bool gpio))"

definition count_true :: "bool list \<Rightarrow> nat" where
  "count_true bs = length (filter id bs)"

text \<open>
  The branch taken when the number of pin state flips differs from the number of audio
  TTLs: onsets are attributed to upticks and offsets to downticks, each with
  \<^verbatim>\<open>attribute_times\<close> at its defaults (\<^verbatim>\<open>tol=.1, injective=True, take='first'\<close>).
  \<^verbatim>\<open>np.empty\<close> gives an array of unspecified content, every place of which is
  then assigned; it is modelled as an array of zeros. The frame times \<open>ts\<close> and the
  flags computed from \<open>gpio\<close> have the same length here, by the checks made before.
\<close>

definition attribute_onsets :: "bool list \<Rightarrow> audio_ttls \<Rightarrow> fval list \<Rightarrow> error + int list" where
  "attribute_onsets gpio audio ts =
     ebind (py_index (bool_select ts (low2high gpio)) 0) (\<lambda>up0.
     let ups = map (\<lambda>t. fsub t up0) (bool_select ts (low2high gpio)) in
     ebind (py_index (times audio) 0) (\<lambda>t0.
     let onsets = map (\<lambda>t. fsub t t0) (evens (times audio)) in
     attribute_times onsets ups (Fin (1 / 10)) True ''first''))"

definition attribute_offsets :: "bool list \<Rightarrow> audio_ttls \<Rightarrow> fval list \<Rightarrow> error + int list" where
  "attribute_offsets gpio audio ts =
     ebind (py_index (bool_select ts (high2low gpio)) 0) (\<lambda>down0.
     let downs = map (\<lambda>t. fsub t down0) (bool_select ts (high2low gpio)) in
     ebind (py_index (times audio) 1) (\<lambda>t1.
     let offsets = map (\<lambda>t. fsub t t1) (odds (times audio)) in
     attribute_times offsets downs (Fin (1 / 10)) True ''first''))"

definition groom_assign :: "bool list \<Rightarrow> audio_ttls \<Rightarrow> fval list \<Rightarrow> error + fval list" where
  "groom_assign gpio audio ts =
     ebind (attribute_onsets gpio audio ts) (\<lambda>assigned.
     py_assert (\<forall>j \<in> set assigned. - 1 < j) ''np.all(assigned > -1)'' (
     ebind (py_take (evens (times audio)) assigned) (\<lambda>onsets'.
     ebind (attribute_offsets gpio audio ts) (\<lambda>assigned.
     py_assert (\<forall>j \<in> set assigned. - 1 < j) ''np.all(assigned > -1)'' (
     ebind (py_take (odds (times audio)) assigned) (\<lambda>offsets'.
     ebind (set_stride (replicate (count_true (flips gpio)) (Fin 0)) 0 onsets') (\<lambda>audio'.
     set_stride audio' 1 offsets')))))))"

text \<open>The assertions on the audio TTLs and on the pin state, in the order of the source.\<close>

definition groom_checks :: "bool list \<Rightarrow> audio_ttls \<Rightarrow> (error + 'a) \<Rightarrow> error + 'a" where
  "groom_checks gpio audio k =
     py_assert (length (times audio) = length (polarities audio))
       ''audio data dimension mismatch'' (
     py_assert (\<forall>d \<in> set (np_diff_int (polarities audio)). \<bar>d\<bar> = 2)
       ''np.all(np.abs(np.diff(audio[polarities])) == 2)'' (
     ebind (py_index (polarities audio) 0) (\<lambda>p0.
     py_assert (p0 = 1) ''audio[polarities][0] == 1'' (
     py_assert (\<forall>d \<in> set (np_diff (times audio)). flt (Fin 0) d)
       ''np.all(np.diff(audio[times]) > 0)'' (
     ebind (py_index gpio 0) (\<lambda>g0.
     py_assert (g0 = False) ''gpio[0] == False'' (
     py_assert (\<exists>g \<in> set gpio. g) ''gpio.any()'' k)))))))"

text \<open>
  Everything after the check of the dimensions. \<open>sync_timestamps\<close> stands for
  \<^verbatim>\<open>ibllib.dsp.utils.sync_timestamps\<close>, which is not part of these sources: given
  the frame times at the flips and the groomed audio times it returns the function from
  camera time to FPGA time (and a drift, used by no result), or raises.
\<close>

type_synonym sync_fn = "fval list \<Rightarrow> fval list \<Rightarrow> error + (fval \<Rightarrow> fval)"

definition groom_body ::
  "sync_fn \<Rightarrow> bool list \<Rightarrow> audio_ttls \<Rightarrow> fval list
     \<Rightarrow> warning list \<times> (error + fval list \<times> fval list)" where
  "groom_body sync_timestamps gpio audio ts =
     (let differ = (count_true (flips gpio) \<noteq> length (times audio));
          w = (if differ
               then [Warning ''more audio TTLs than GPIO state changes, assigning timestamps'']
               else [])
      in case groom_checks gpio audio (Inr ()) of
           Inl e \<Rightarrow> ([], Inl e)
         | Inr _ \<Rightarrow>
            (w, ebind (if differ then groom_assign gpio audio ts else Inr (times audio))
                  (\<lambda>audio'.
                ebind (sync_timestamps (bool_select ts (flips gpio)) audio') (\<lambda>fcn_a2b.
                Inr (audio', map fcn_a2b ts)))))"

definition groom_pin_state ::
  "sync_fn \<Rightarrow> bool list \<Rightarrow> audio_ttls \<Rightarrow> fval list
     \<Rightarrow> warning list \<times> (error + fval list \<times> fval list)" where
  "groom_pin_state sync_timestamps gpio audio ts =
     (if length ts \<noteq> length gpio then
        (let w = Warning ''frames times and gpio lengths don't match'' in
         if length ts < length gpio then
           (let (ws, r) = groom_body sync_timestamps (take (length ts) gpio) audio ts
            in (w # ws, r))
         else ([w], Inl (AssertionError ''fewer GPIO events than frame times'')))
      else groom_body sync_timestamps gpio audio ts)"

text \<open>
  Modelled from the spec: \<^verbatim>\<open>sync_timestamps\<close> is missing from the sources; the
  specification says of it only that, given two time sequences of the same length, it
  returns a monotone mapping from the source to the target domain. The properties below
  hold for any such function; this stand-in, which shifts camera time by the offset of
  the first pair of events, is used only where a result is computed at a concrete
  input.
\<close>

definition sync_shift :: sync_fn where
  "sync_shift a b =
     (if length a = length b \<and> a \<noteq> []
      then Inr (\<lambda>t. fadd t (fsub (hd b) (hd a)))
      else Inl (SyncError ''sequences of different length''))"

section \<open>align\_with\_audio\<close>

text \<open>
  More of IEEE 754: division, and the order numpy sorts and searches with, in which nan
  comes after every other value.
\<close>

fun fdiv :: "fval \<Rightarrow> fval \<Rightarrow> fval" where
  "fdiv NaN _ = NaN"
| "fdiv _ NaN = NaN"
| "fdiv (Fin a) (Fin b) =
     (if b \<noteq> 0 then Fin (a / b)
      else if a = 0 then NaN else if 0 < a then PInf else NInf)"
| "fdiv (Fin a) _ = Fin 0"
| "fdiv PInf (Fin b) = (if b < 0 then NInf else PInf)"
| "fdiv NInf (Fin b) = (if b < 0 then PInf else NInf)"
| "fdiv _ _ = NaN"

definition np_less :: "fval \<Rightarrow> fval \<Rightarrow> bool" where
  "np_less a b = (flt a b \<or> (b = NaN \<and> a \<noteq> NaN))"

text \<open>
  \<^verbatim>\<open>np.searchsorted(a, v)\<close> with the default \<^verbatim>\<open>side='left'\<close>: numpy's binary
  search, which on a sorted array finds the number of entries less than \<open>v\<close>.
\<close>

function bsearch_left :: "fval list \<Rightarrow> fval \<Rightarrow> nat \<Rightarrow> nat \<Rightarrow> nat" where
  "bsearch_left a v lo hi =
     (if lo < hi then
        (let mid = lo + (hi - lo) div 2 in
         if np_less (a ! mid) v then bsearch_left a v (mid + 1) hi
         else bsearch_left a v lo mid)
      else lo)"
  by pat_completeness auto
termination
  by (relation "measure (\<lambda>(a, v, lo, hi). hi - lo)") auto

definition searchsorted :: "fval list \<Rightarrow> fval \<Rightarrow> nat" where
  "searchsorted a v = bsearch_left a v 0 (length a)"

text \<open>\<^verbatim>\<open>np.median\<close> and \<^verbatim>\<open>np.nanmedian\<close>; both give nan on an empty array.\<close>

fun finsort :: "fval \<Rightarrow> fval list \<Rightarrow> fval list" where
  "finsort x [] = [x]"
| "finsort x (y # ys) = (if np_less y x then y # finsort x ys else x # y # ys)"

definition fsort :: "fval list \<Rightarrow> fval list" where
  "fsort xs = foldr finsort xs []"

definition np_median :: "fval list \<Rightarrow> fval" where
  "np_median xs =
     (if xs = [] \<or> NaN \<in> set xs then NaN
      else let s = fsort xs; n = length xs in
        if odd n then s ! (n div 2)
        else fdiv (fadd (s ! (n div 2 - 1)) (s ! (n div 2))) (Fin 2))"

definition np_nanmedian :: "fval list \<Rightarrow> fval" where
  "np_nanmedian xs = np_median (filter (\<lambda>v. v \<noteq> NaN) xs)"

text \<open>
  Python's \<^verbatim>\<open>round\<close> of a float to an integer: halves go to the even neighbour; nan
  and the infinities raise.
\<close>

definition round_half_even :: "real \<Rightarrow> int" where
  "round_half_even r =
     (let f = \<lfloor>r\<rfloor>; d = r - of_int f in
      if d < 1 / 2 then f else if 1 / 2 < d then f + 1
      else if even f then f else f + 1)"

fun py_round :: "fval \<Rightarrow> error + int" where
  "py_round (Fin r) = Inr (round_half_even r)"
| "py_round NaN = Inl (ValueError ''cannot convert float NaN to integer'')"
| "py_round _ = Inl (OverflowError ''cannot convert float infinity to integer'')"

text \<open>The slice \<^verbatim>\<open>a[s:e]\<close>, and \<^verbatim>\<open>argmax\<close> of a boolean array.\<close>

definition py_slice :: "'a list \<Rightarrow> int \<Rightarrow> int \<Rightarrow> 'a list" where
  "py_slice a s e =
     (let n = int (length a);
          clamp = (\<lambda>i. if i < 0 then max 0 (n + i) else min i n);
          s' = nat (clamp s); e' = nat (clamp e)
      in take (e' - s') (drop s' a))"

definition argmax_bool :: "bool list \<Rightarrow> error + nat" where
  "argmax_bool bs =
     (if bs = [] then Inl (ValueError ''attempt to get argmax of an empty sequence'')
      else case first_where id bs of Inl _ \<Rightarrow> Inr 0 | Inr i \<Rightarrow> Inr i)"

text \<open>The assertions made on the raw data, common to both alignment functions.\<close>

definition align_checks ::
  "fval list \<Rightarrow> fval list \<Rightarrow> bool list \<Rightarrow> int list \<Rightarrow> (error + 'a) \<Rightarrow> error + 'a" where
  "align_checks timestamps audio pin_state count k =
     py_assert (length count = length pin_state) ''frame count and pin state size mismatch'' (
     py_assert (\<forall>d \<in> set (np_diff_int count). 0 < d) ''frame count not strictly increasing'' (
     py_assert (\<forall>d \<in> set (np_diff timestamps). flt (Fin 0) d)
       ''FPGA camera times not strictly increasing'' (
     py_assert (count_true (map (\<lambda>d. d = 1) (np_diff_int (map of_bool pin_state)))
                  \<le> length audio)
       ''more audio TTLs detected on camera than TTLs sent'' k)))"

text \<open>
  The alignment on the first pin state change: the index of the first uptick, the first
  audio TTL and the start offset.
\<close>

definition align_start ::
  "fval list \<Rightarrow> fval list \<Rightarrow> bool list \<Rightarrow> int list \<Rightarrow> error + nat \<times> fval \<times> int" where
  "align_start timestamps audio pin_state count =
     ebind (argmax_bool pin_state) (\<lambda>first_uptick.
     ebind (py_index audio 0) (\<lambda>audio0.
     let first_ttl = searchsorted timestamps audio0 in
     ebind (py_index count (int first_uptick)) (\<lambda>c.
     let start = int first_ttl - int first_uptick - (c - int first_uptick) in
     py_assert (0 \<le> start) ''start >= 0'' (Inr (first_uptick, audio0, start)))))"

text \<open>The times appended when there are fewer timestamps than frame counts.\<close>

definition align_pad :: "fval list \<Rightarrow> nat \<Rightarrow> bool \<Rightarrow> error + fval list" where
  "align_pad ts n_missing extrapolate_missing =
     ebind (py_round (fdiv (Fin 1) (np_nanmedian (np_diff ts)))) (\<lambda>frate.
     ebind (if extrapolate_missing
            then ebind (py_index ts (- 1)) (\<lambda>last_ts.
                   Inr (map (\<lambda>k. fadd (fdiv (Fin (real (k + 1))) (Fin (of_int frate))) last_ts)
                          [0..<n_missing]))
            else Inr (replicate n_missing NaN))
       (\<lambda>to_app. Inr (ts @ to_app)))"

definition align_with_audio ::
  "fval list \<Rightarrow> fval list \<Rightarrow> bool list \<Rightarrow> int list \<Rightarrow> bool
     \<Rightarrow> warning list \<times> (error + fval list)" where
  "align_with_audio timestamps audio pin_state count extrapolate_missing =
     (case align_checks timestamps audio pin_state count
             (ebind (align_start timestamps audio pin_state count) (\<lambda>(first_uptick, audio0, start).
              ebind (py_index count (- 1)) (\<lambda>count_last.
              Inr (first_uptick, audio0, start, count_last)))) of
        Inl e \<Rightarrow> ([], Inl e)
      | Inr (first_uptick, audio0, start, count_last) \<Rightarrow>
         (let stop = count_last + 1 + start;
              ts = py_slice timestamps start stop;
              n_missing = length count - length ts;
              w = (if length ts < length count
                   then [WarningCount n_missing ''fewer FPGA timestamps than frame counts'']
                   else [])
          in (w,
              ebind (if length ts < length count
                     then align_pad ts n_missing extrapolate_missing else Inr ts) (\<lambda>ts.
              py_assert (length count \<le> length ts) ''ts.size >= count.size'' (
              py_assert (int (length ts) = count_last + 1) ''ts.size == count[-1] + 1'' (
              ebind (py_take ts count) (\<lambda>ts.
              py_assert (searchsorted ts audio0 = first_uptick)
                ''np.searchsorted(ts, audio[0]) == first_uptick'' (Inr ts))))))))"

section \<open>align\_with\_audio\_safe\<close>

text \<open>
  \<^verbatim>\<open>np.split(a, indices)\<close>: the pieces of \<open>a\<close> between consecutive division
  points, the first piece from 0 and the last to the end.
\<close>

definition np_split :: "'a list \<Rightarrow> nat list \<Rightarrow> 'a list list" where
  "np_split a indices =
     (let points = 0 # map int indices @ [int (length a)]
      in map (\<lambda>(s, e). py_slice a s e) (zip points (tl points)))"

text \<open>\<^verbatim>\<open>np.where(flags)[0]\<close>: the indices of the true entries.\<close>

definition np_where :: "bool list \<Rightarrow> nat list" where
  "np_where flags = map fst (filter snd (zip [0..<length flags] flags))"

text \<open>
  The loop over the fragments between upticks. It assigns to the entries of the list
  \<open>timestamps_split\<close>; each entry assigned is a new array.
\<close>

fun safe_loop ::
  "int list \<Rightarrow> nat list \<Rightarrow> nat list \<Rightarrow> fval list list \<Rightarrow> error + fval list list" where
  "safe_loop count upticks [] timestamps_split = Inr timestamps_split"
| "safe_loop count upticks (i # is) timestamps_split =
     ebind (py_index upticks (int i)) (\<lambda>u0.
     ebind (py_index upticks (int i + 1)) (\<lambda>u1.
     ebind (py_index count (int u0)) (\<lambda>c0.
     let count_frag = map (\<lambda>c. c - c0) (py_slice count (int u0) (int u1)) in
     ebind (py_index count_frag (- 1)) (\<lambda>frag_last.
     let missing = filter (\<lambda>v. v \<notin> set count_frag) (map int [0..<nat frag_last]) in
     ebind (py_index timestamps_split (int i)) (\<lambda>piece.
     py_assert (int (length piece) - int (length count_frag) = int (length missing))
       ''(timestamps_split[i].size - count_frag.size) == len(missing)'' (
     ebind (py_take piece count_frag) (\<lambda>piece'.
     safe_loop count upticks is (timestamps_split[i := piece']))))))))"

definition align_with_audio_safe ::
  "fval list \<Rightarrow> fval list \<Rightarrow> bool list \<Rightarrow> int list \<Rightarrow> bool \<Rightarrow> error + fval list" where
  "align_with_audio_safe timestamps audio pin_state count extrapolate_missing =
     align_checks timestamps audio pin_state count (
     ebind (argmax_bool pin_state) (\<lambda>first_uptick.
     ebind (py_index audio 0) (\<lambda>audio0.
     let first_ttl = searchsorted timestamps audio0;
         upticks = 0 # np_where (low2high pin_state) in
     ebind (py_index count (int first_uptick)) (\<lambda>c.
     let start = int first_ttl - int first_uptick - (c - int first_uptick) in
     py_assert (0 \<le> start) ''start >= 0'' (
     let ts = py_slice timestamps start (int (length timestamps));
         ttls = map (searchsorted ts) audio;
         timestamps_split = np_split ts ttls in
     ebind (safe_loop count upticks [0..<length upticks - 1] timestamps_split)
       (\<lambda>timestamps_split. Inr ts))))))"

section \<open>CameraTimestampsBpod.\_times\_from\_bpod\<close>

text \<open>
  More arithmetic: multiplication, \<^verbatim>\<open><=\<close>, and \<^verbatim>\<open>np.round\<close>, which rounds
  halves to the even neighbour and leaves nan and the infinities as they are.
\<close>

fun fmul :: "fval \<Rightarrow> fval \<Rightarrow> fval" where
  "fmul NaN _ = NaN"
| "fmul _ NaN = NaN"
| "fmul (Fin a) (Fin b) = Fin (a * b)"
| "fmul (Fin a) PInf = (if a = 0 then NaN else if 0 < a then PInf else NInf)"
| "fmul (Fin a) NInf = (if a = 0 then NaN else if 0 < a then NInf else PInf)"
| "fmul PInf (Fin b) = (if b = 0 then NaN else if 0 < b then PInf else NInf)"
| "fmul NInf (Fin b) = (if b = 0 then NaN else if 0 < b then NInf else PInf)"
| "fmul PInf PInf = PInf"
| "fmul PInf NInf = NInf"
| "fmul NInf PInf = NInf"
| "fmul NInf NInf = PInf"

definition fle :: "fval \<Rightarrow> fval \<Rightarrow> bool" where
  "fle a b = (flt a b \<or> (a = b \<and> a \<noteq> NaN))"

fun np_round :: "fval \<Rightarrow> fval" where
  "np_round (Fin r) = Fin (of_int (round_half_even r))"
| "np_round v = v"

text \<open>
  \<^verbatim>\<open>np.int32(x)\<close> of a float array truncates each value. For nan, the infinities
  and the values outside the range of \<open>int32\<close> the conversion is undefined in C and
  its result depends on the platform: the model stops there. Subtracting or adding one
  in \<open>int32\<close> wraps around.
\<close>

definition to_int32 :: "fval \<Rightarrow> error + int" where
  "to_int32 v =
     (case v of
        Fin r \<Rightarrow>
          (let t = (if 0 \<le> r then \<lfloor>r\<rfloor> else \<lceil>r\<rceil>)
           in if - 2147483648 \<le> t \<and> t \<le> 2147483647 then Inr t
              else Inl (Undefined ''float to int32 conversion out of range''))
      | _ \<Rightarrow> Inl (Undefined ''float to int32 conversion of a non-finite value''))"

definition wrap32 :: "int \<Rightarrow> int" where
  "wrap32 x = (x + 2147483648) mod 4294967296 - 2147483648"

text \<open>
  Subtraction of two arrays: of equal length, or one of them a single value, which is
  broadcast.
\<close>

definition np_sub :: "fval list \<Rightarrow> fval list \<Rightarrow> error + fval list" where
  "np_sub a b =
     (if length a = length b then Inr (map (\<lambda>(x, y). fsub x y) (zip a b))
      else if length a = 1 then Inr (map (\<lambda>y. fsub (a ! 0) y) b)
      else if length b = 1 then Inr (map (\<lambda>x. fsub x (b ! 0)) a)
      else Inl (ValueError ''operands could not be broadcast together''))"

text \<open>
  The assignment \<^verbatim>\<open>a[s:e] = vals\<close>: the values must be as many as the slice has
  places, or be a single value.
\<close>

definition slice_assign :: "fval list \<Rightarrow> int \<Rightarrow> int \<Rightarrow> fval list \<Rightarrow> error + fval list" where
  "slice_assign a s e vals =
     (let n = int (length a);
          clamp = (\<lambda>i. if i < 0 then max 0 (n + i) else min i n);
          s' = nat (clamp s); e' = nat (clamp e); len = e' - s'
      in if length vals = len then Inr (take s' a @ vals @ drop (s' + len) a)
         else if length vals = 1 then Inr (take s' a @ replicate len (vals ! 0) @ drop (s' + len) a)
         else Inl (ValueError ''could not broadcast input array''))"

text \<open>\<^verbatim>\<open>[f(c) for c in cs]\<close> where \<open>f\<close> may raise.\<close>

fun map_err :: "('a \<Rightarrow> error + 'b) \<Rightarrow> 'a list \<Rightarrow> error + 'b list" where
  "map_err f [] = Inr []"
| "map_err f (x # xs) = ebind (f x) (\<lambda>y. ebind (map_err f xs) (\<lambda>ys. Inr (y # ys)))"

text \<open>
  Of a Bpod trial the function reads the event timestamps of \<open>Port1In\<close> and
  \<open>Port1Out\<close>; either may be absent (\<^verbatim>\<open>.get\<close> gives \<open>None\<close>).
\<close>

record bpod_trial =
  port1in :: "fval list option"
  port1out :: "fval list option"

text \<open>
  One turn of the loop over the trials: nothing for a discarded trial, or the frame times
  \<open>pin\<close> of the trial and whether the trial counts as out of sync (never for the
  trial of index 0).
\<close>

definition trial_cam_time :: "nat \<Rightarrow> bpod_trial \<Rightarrow> error + (fval list \<times> bool) option" where
  "trial_cam_time ind trial =
     (case port1in trial of
        None \<Rightarrow> Inr None
      | Some pin \<Rightarrow>
         (case port1out trial of
            None \<Rightarrow> Inl (IndexError ''too many indices for array'')
          | Some pout \<Rightarrow>
             ebind (py_index pout 0) (\<lambda>pout0.
             ebind (py_index pin 0) (\<lambda>pin0.
             let pout = (if flt pout0 pin0 then tl pout else pout);
                 pin = take (length pout) pin;
                 frate = np_median (np_diff pin)
             in if 0 < ind then
                  ebind (np_sub pin pout) (\<lambda>width.
                  let test1 = (\<forall>x \<in> set width.
                                 flt (fabs (fsub (Fin 1) (fdiv x (np_median width)))) (Fin (1 / 10)));
                      test2 = (\<forall>d \<in> set (np_diff pin).
                                 fle (fabs (fsub d frate)) (Fin (11 / 100000)))
                  in Inr (Some (pin, \<not> (test1 \<and> test2))))
                else Inr (Some (pin, False))))))"

fun collect_trials :: "nat \<Rightarrow> bpod_trial list \<Rightarrow> error + fval list list \<times> nat" where
  "collect_trials ind [] = Inr ([], 0)"
| "collect_trials ind (trial # trials) =
     ebind (trial_cam_time ind trial) (\<lambda>r.
     ebind (collect_trials (Suc ind) trials) (\<lambda>(cam_times, n_out_of_sync).
     case r of
       None \<Rightarrow> Inr (cam_times, n_out_of_sync)
     | Some (pin, bad) \<Rightarrow> Inr (pin # cam_times, (if bad then Suc n_out_of_sync else n_out_of_sync))))"

text \<open>
  The loop that fills \<open>frame_times\<close>: the times of each trial, then the times
  interpolated up to the next trial. \<open>ii\<close> is the running index.
\<close>

fun fill_frames ::
  "int list \<Rightarrow> fval list \<Rightarrow> nat \<Rightarrow> nat \<Rightarrow> fval list list \<Rightarrow> int \<Rightarrow> fval list
     \<Rightarrow> error + fval list" where
  "fill_frames missed duration ncam trial [] ii frame_times = Inr frame_times"
| "fill_frames missed duration ncam trial (cam_time # rest) ii frame_times =
     ebind (slice_assign frame_times ii (ii + int (length cam_time)) cam_time) (\<lambda>frame_times.
     let ii = ii + int (length cam_time) in
     if int trial = int ncam - 1 then Inr frame_times
     else
       ebind (py_index missed (int trial)) (\<lambda>nmiss.
       ebind (py_index cam_time (- 1)) (\<lambda>last_time.
       ebind (py_index duration (int trial)) (\<lambda>d.
       let step = fdiv d (Fin (of_int (wrap32 (nmiss + 1))));
           vals = map (\<lambda>k. fadd last_time (fmul step (Fin (real (k + 1))))) [0..<nat nmiss]
       in ebind (slice_assign frame_times ii (ii + nmiss) vals) (\<lambda>frame_times.
          fill_frames missed duration ncam (Suc trial) rest (ii + nmiss) frame_times)))))"

text \<open>
  The global frame rate, the durations between trials and the numbers of missed frames.
\<close>

definition bpod_frate :: "fval list list \<Rightarrow> fval" where
  "bpod_frate cam_times =
     fdiv (Fin 1) (np_nanmedian (map (\<lambda>c. np_median (np_diff c)) cam_times))"

definition missed_frames :: "fval \<Rightarrow> fval \<Rightarrow> error + int" where
  "missed_frames frate d =
     ebind (to_int32 (np_round (fmul d frate))) (\<lambda>n. Inr (wrap32 (n - 1)))"

text \<open>
  The extrapolation to the number of frames of the video. \<open>videos\<close> holds the frame
  count of every file that matches \<^verbatim>\<open>_iblrig_leftCamera*.mp4\<close>; there must be
  exactly one.
\<close>

definition extrapolate_video :: "fval \<Rightarrow> nat list \<Rightarrow> fval list \<Rightarrow> error + fval list" where
  "extrapolate_video frate videos frame_times =
     (case videos of
        [nframes] \<Rightarrow>
          if length frame_times < nframes then
            ebind (py_index frame_times (- 1)) (\<lambda>last_time.
            Inr (frame_times @
                 map (\<lambda>k. fadd (fdiv (Fin (real (k + 1))) frate) last_time)
                   [0..<nframes - length frame_times]))
          else Inr frame_times
      | [] \<Rightarrow> Inl (ValueError ''not enough values to unpack'')
      | _ \<Rightarrow> Inl (ValueError ''too many values to unpack''))"

definition bpod_frame_times :: "fval list list \<Rightarrow> nat list \<Rightarrow> error + fval list" where
  "bpod_frame_times cam_times videos =
     ebind (map_err (\<lambda>c. py_index c 0) cam_times) (\<lambda>t_first_frame.
     ebind (map_err (\<lambda>c. py_index c (- 1)) cam_times) (\<lambda>t_last_frame.
     let frate = bpod_frate cam_times;
         intertrial_duration = map (\<lambda>(a, b). fsub a b) (zip (tl t_first_frame) (butlast t_last_frame))
     in
     ebind (map_err (missed_frames frate) intertrial_duration) (\<lambda>intertrial_missed_frames.
     let n_frames = sum_list (map length cam_times);
         total = int n_frames + sum_list intertrial_missed_frames
     in
     (if total < 0 then Inl (ValueError ''negative dimensions are not allowed'') else
     ebind (fill_frames intertrial_missed_frames intertrial_duration (length cam_times) 0
              cam_times 0 (replicate (nat total) (Fin 0))) (\<lambda>frame_times.
     ebind (extrapolate_video frate videos frame_times) (\<lambda>frame_times.
     py_assert (\<forall>d \<in> set (np_diff frame_times). flt (Fin 0) d)
       ''all(np.diff(frame_times) > 0)'' (Inr frame_times)))))))"

definition times_from_bpod ::
  "bpod_trial list \<Rightarrow> nat list \<Rightarrow> warning list \<times> (error + fval list)" where
  "times_from_bpod bpod_trials videos =
     (case collect_trials 0 bpod_trials of
        Inl e \<Rightarrow> ([], Inl e)
      | Inr (cam_times, n_out_of_sync) \<Rightarrow>
         ((if 0 < n_out_of_sync
           then [WarningCount n_out_of_sync
                   ''trials with bpod camera frame times not within 10% of the expected sampling rate'']
           else []),
          bpod_frame_times cam_times videos))"

text \<open>
  The reconstruction as the specification words it, to compare the function with:
  between two consecutive kept trials, \<open>round(gap * f) - 1\<close> frame times evenly spaced
  within the gap, where the gap runs from the last frame time of the one trial to the
  first frame time of the next and \<open>f\<close> is the global median frame rate.
\<close>

fun fin_val :: "fval \<Rightarrow> real" where
  "fin_val (Fin r) = r"
| "fin_val _ = 0"

definition spec_gap_points :: "real \<Rightarrow> real \<Rightarrow> real \<Rightarrow> fval list" where
  "spec_gap_points t_last gap f =
     (let n = nat (round_half_even (gap * f) - 1)
      in map (\<lambda>j. Fin (t_last + gap / real (n + 1) * real (j + 1))) [0..<n])"

fun spec_interleave :: "fval list list \<Rightarrow> real \<Rightarrow> fval list" where
  "spec_interleave [] f = []"
| "spec_interleave [c] f = c"
| "spec_interleave (c # c' # cs) f =
     c @ spec_gap_points (fin_val (last c)) (fin_val (hd c') - fin_val (last c)) f
       @ spec_interleave (c' # cs) f"

section \<open>Auxiliary facts about errors and array primitives\<close>

lemma ebind_Inr_iff: "ebind m f = Inr y \<longleftrightarrow> (\<exists>x. m = Inr x \<and> f x = Inr y)"
  by (cases m) (simp_all add: ebind_def)

lemma ebind_Inr_simp [simp]: "ebind (Inr x) f = f x"
  by (simp add: ebind_def)

lemma ebind_Inl_simp [simp]: "ebind (Inl e) f = Inl e"
  by (simp add: ebind_def)

lemma py_assert_Inr_iff: "py_assert c msg k = Inr y \<longleftrightarrow> c \<and> k = Inr y"
  by (simp add: py_assert_def)

lemma py_index_Inr_nonneg:
  assumes "py_index a i = Inr v" and "0 \<le> i"
  shows "nat i < length a \<and> v = a ! nat i"
  using assms by (auto simp: py_index_def Let_def split: if_splits)

lemma py_index_0_Inr: "py_index a 0 = Inr v \<Longrightarrow> a \<noteq> [] \<and> v = hd a"
  by (cases a) (auto simp: py_index_def Let_def split: if_splits)

lemma py_take_Inr:
  "py_take a js = Inr vs \<Longrightarrow>
     length vs = length js \<and> (\<forall>k<length js. 0 \<le> js ! k \<longrightarrow> vs ! k = a ! nat (js ! k))"
proof (induction js arbitrary: vs)
  case Nil
  then show ?case by simp
next
  case (Cons j js)
  from Cons.prems obtain v vs' where v: "py_index a j = Inr v"
    and vs': "py_take a js = Inr vs'" and vs: "vs = v # vs'"
    by (auto simp: ebind_Inr_iff)
  from Cons.IH[OF vs'] have ih: "length vs' = length js"
    "\<forall>k<length js. 0 \<le> js ! k \<longrightarrow> vs' ! k = a ! nat (js ! k)" by simp_all
  show ?case
  proof (intro conjI allI impI)
    show "length vs = length (j # js)" using ih vs by simp
  next
    fix k assume k: "k < length (j # js)" and nn: "0 \<le> (j # js) ! k"
    show "vs ! k = a ! nat ((j # js) ! k)"
    proof (cases k)
      case 0
      then show ?thesis using v nn vs py_index_Inr_nonneg[of a j v] by simp
    next
      case (Suc k')
      then show ?thesis using ih k nn vs by simp
    qed
  qed
qed

lemma attribute_loop_length:
  "attribute_loop arr tol injective tk i xs (m, as) = Inr (m', as') \<Longrightarrow> length as' = length as"
proof (induction xs arbitrary: i m as)
  case Nil
  then show ?case by simp
next
  case (Cons x xs)
  then show ?case
    by (auto simp: ebind_Inr_iff Let_def split: if_splits)
qed

lemma attribute_times_length:
  "attribute_times arr events tol injective tk = Inr as \<Longrightarrow> length as = length events"
  by (auto simp: attribute_times_def Let_def ebind_Inr_iff split: if_splits
           dest!: attribute_loop_length)

lemma set_stride_length: "set_stride a s v = Inr b \<Longrightarrow> length b = length a"
  by (auto simp: set_stride_def split: if_splits)

lemma set_stride_on:
  assumes "set_stride a s v = Inr b" and "s + 2 * k < length a"
  shows "b ! (s + 2 * k) = (if length v = stride_size s (length a) then v ! k else v ! 0)"
  using assms by (auto simp: set_stride_def on_stride_def split: if_splits)

lemma set_stride_off:
  assumes "set_stride a s v = Inr b" and "j < length a" and "\<not> on_stride s j"
  shows "b ! j = a ! j"
  using assms by (auto simp: set_stride_def split: if_splits)

section \<open>Properties of attribute\_times\<close>

text \<open>
  C6. With \<open>injective=True\<close> no candidate index should be assigned to two events. With
  candidates \<open>[0, 1]\<close> and events \<open>[0, 1e20]\<close> the function assigns candidate 0
  to both events: the candidate consumed by the first event is masked, the masked entry is
  filled with \<open>1e20\<close>, and the second event is within tolerance of the fill value.
\<close>

theorem attribute_times_assigns_consumed_index_again:
  "attribute_times [Fin 0, Fin 1] [Fin 0, Fin 100000000000000000000] (Fin (1 / 10)) True ''first''
     = Inr [0, 0]"
  by code_simp

text \<open>
  C7. For sorted candidates and sorted events the indices assigned with
  \<open>take='first'\<close> should be weakly increasing. With candidates \<open>[0, 10, 20]\<close>
  and events \<open>[0, 10, 1e20]\<close> the indices are \<open>[0, 1, 0]\<close>: the last event is
  given the masked first candidate, through the fill value.
\<close>

theorem attribute_times_sorted_inputs_index_decreases:
  "attribute_times [Fin 0, Fin 10, Fin 20] [Fin 0, Fin 10, Fin 100000000000000000000]
     (Fin (1 / 10)) True ''first'' = Inr [0, 1, 0]"
  by code_simp

text \<open>
  C9. An index assigned by \<open>attribute_times\<close> should point at a finite candidate.
  With candidates \<open>[nan, 5]\<close> and the finite event \<open>1e20\<close> the index assigned is 0,
  the place of the nan.
\<close>

theorem attribute_times_assigns_nonfinite_entry:
  "attribute_times [NaN, Fin 5] [Fin 100000000000000000000] (Fin (1 / 10)) True ''first''
     = Inr [0]
   \<and> \<not> isfinite ([NaN, Fin 5] ! 0)"
  by code_simp

subsection \<open>The matches away from the fill value\<close>

text \<open>
  The three properties above fail only through the fill value of the masked array. For
  events that are not within tolerance of it they hold, as the following lemmas show.
\<close>

lemma first_where_Inr:
  "first_where P xs = Inr i \<Longrightarrow> i < length xs \<and> P (xs ! i) \<and> (\<forall>j < i. \<not> P (xs ! j))"
proof (induction xs arbitrary: i)
  case Nil
  then show ?case by simp
next
  case (Cons x xs)
  show ?case
  proof (cases "P x")
    case True
    with Cons.prems show ?thesis by simp
  next
    case False
    with Cons.prems obtain i' where i': "first_where P xs = Inr i'" and i: "i = Suc i'"
      by (auto simp: ebind_Inr_iff)
    from Cons.IH[OF i'] False i show ?thesis
      by (auto simp: less_Suc_eq_0_disj)
  qed
qed

lemma length_filled: "length msk = length arr \<Longrightarrow> length (filled arr msk) = length arr"
  by (simp add: filled_def)

lemma filled_nth:
  "length msk = length arr \<Longrightarrow> j < length arr \<Longrightarrow>
     filled arr msk ! j = (if msk ! j then fill_value else arr ! j)"
  by (simp add: filled_def)

text \<open>The index chosen for an event is within tolerance of the filled array.\<close>

lemma chosen_index:
  assumes m: "np_min dx = Inr m" and lt: "flt m tol"
    and c: "(if tk = ''first'' then first_where (\<lambda>d. flt d tol) dx else np_argmin dx) = Inr idx"
  shows "idx < length dx \<and> flt (dx ! idx) tol
       \<and> (tk = ''first'' \<longrightarrow> (\<forall>j < idx. \<not> flt (dx ! j) tol))"
proof (cases "tk = ''first''")
  case True
  with c first_where_Inr[of "\<lambda>d. flt d tol" dx idx] show ?thesis by simp
next
  case False
  with c m have "first_where (\<lambda>d. d = m) dx = Inr idx"
    by (simp add: np_argmin_def)
  from first_where_Inr[OF this] lt False show ?thesis by simp
qed

text \<open>
  The invariant of the loop of attribute_times, for events that are not within tolerance
  of the fill value: an index assigned from some turn on points at an entry that was
  not masked at that turn, and with injective=True such indices differ from one another.
\<close>

lemma attribute_loop_unmasked:
  assumes "attribute_loop arr tol injective tk i xs (msk, as) = Inr (msk', as')"
    and "\<forall>x \<in> set xs. \<not> flt (fabs (fsub fill_value x)) tol"
    and "length msk = length arr"
    and "i + length xs \<le> length as"
    and "\<forall>p. i \<le> p \<and> p < length as \<longrightarrow> as ! p = - 1"
  shows "length as' = length as
     \<and> (\<forall>p < i. as' ! p = as ! p)
     \<and> (\<forall>p. i \<le> p \<and> p < i + length xs \<longrightarrow>
           as' ! p = - 1
         \<or> (0 \<le> as' ! p \<and> nat (as' ! p) < length arr \<and> \<not> msk ! nat (as' ! p)
              \<and> flt (fabs (fsub (arr ! nat (as' ! p)) (xs ! (p - i)))) tol))
     \<and> (injective \<longrightarrow>
           (\<forall>p q. i \<le> p \<and> p < q \<and> q < i + length xs \<and> 0 \<le> as' ! p
              \<longrightarrow> as' ! p \<noteq> as' ! q))"
  using assms
proof (induction xs arbitrary: i msk as)
  case Nil
  then show ?case by simp
next
  case (Cons x xs)
  define dx where "dx = map (\<lambda>v. fabs (fsub v x)) (filled arr msk)"
  have ldx: "length dx = length arr"
    using Cons.prems(3) by (simp add: dx_def length_filled)
  from Cons.prems(1) have "ebind (np_min dx) (\<lambda>m.
        if flt m tol then
          ebind (if tk = ''first'' then first_where (\<lambda>d. flt d tol) dx else np_argmin dx)
            (\<lambda>idx. attribute_loop arr tol injective tk (Suc i) xs
                      (msk[idx := injective], as[i := int idx]))
        else attribute_loop arr tol injective tk (Suc i) xs (msk, as)) = Inr (msk', as')"
    unfolding dx_def by (simp only: attribute_loop.simps Let_def)
  then obtain m where m: "np_min dx = Inr m"
    and rest: "(if flt m tol then
          ebind (if tk = ''first'' then first_where (\<lambda>d. flt d tol) dx else np_argmin dx)
            (\<lambda>idx. attribute_loop arr tol injective tk (Suc i) xs
                      (msk[idx := injective], as[i := int idx]))
        else attribute_loop arr tol injective tk (Suc i) xs (msk, as)) = Inr (msk', as')"
    by (auto simp: ebind_Inr_iff)
  from Cons.prems(4) have i_lt: "i < length as" and len': "Suc i + length xs \<le> length as"
    by simp_all
  from Cons.prems(2) have guard': "\<forall>x \<in> set xs. \<not> flt (fabs (fsub fill_value x)) tol"
    and gx: "\<not> flt (fabs (fsub fill_value x)) tol" by simp_all
  show ?case
  proof (cases "flt m tol")
    case False
    with rest have run: "attribute_loop arr tol injective tk (Suc i) xs (msk, as) = Inr (msk', as')"
      by simp
    have neg: "\<forall>p. Suc i \<le> p \<and> p < length as \<longrightarrow> as ! p = - 1"
      using Cons.prems(5) by simp
    note ih = Cons.IH[OF run guard' Cons.prems(3) len' neg]
    from ih have l: "length as' = length as" and keep: "\<forall>p < Suc i. as' ! p = as ! p"
      and un: "\<forall>p. Suc i \<le> p \<and> p < Suc i + length xs \<longrightarrow>
           as' ! p = - 1
         \<or> (0 \<le> as' ! p \<and> nat (as' ! p) < length arr \<and> \<not> msk ! nat (as' ! p)
              \<and> flt (fabs (fsub (arr ! nat (as' ! p)) (xs ! (p - Suc i)))) tol)"
      and inj: "injective \<longrightarrow>
           (\<forall>p q. Suc i \<le> p \<and> p < q \<and> q < Suc i + length xs \<and> 0 \<le> as' ! p
              \<longrightarrow> as' ! p \<noteq> as' ! q)"
      by blast+
    from keep Cons.prems(5) i_lt have ati: "as' ! i = - 1" by simp
    have un': "\<forall>p. i \<le> p \<and> p < i + length (x # xs) \<longrightarrow>
           as' ! p = - 1
         \<or> (0 \<le> as' ! p \<and> nat (as' ! p) < length arr \<and> \<not> msk ! nat (as' ! p)
              \<and> flt (fabs (fsub (arr ! nat (as' ! p)) ((x # xs) ! (p - i)))) tol)"
    proof (intro allI impI)
      fix p assume p: "i \<le> p \<and> p < i + length (x # xs)"
      show "as' ! p = - 1
         \<or> (0 \<le> as' ! p \<and> nat (as' ! p) < length arr \<and> \<not> msk ! nat (as' ! p)
              \<and> flt (fabs (fsub (arr ! nat (as' ! p)) ((x # xs) ! (p - i)))) tol)"
      proof (cases "p = i")
        case True
        with ati show ?thesis by simp
      next
        case False
        with p have p': "Suc i \<le> p \<and> p < Suc i + length xs" by simp
        then have "(x # xs) ! (p - i) = xs ! (p - Suc i)" by (simp add: Suc_diff_le)
        with un p' show ?thesis by auto
      qed
    qed
    have inj': "injective \<longrightarrow>
           (\<forall>p q. i \<le> p \<and> p < q \<and> q < i + length (x # xs) \<and> 0 \<le> as' ! p
              \<longrightarrow> as' ! p \<noteq> as' ! q)"
    proof (intro allI impI)
      fix p q assume injective and pq: "i \<le> p \<and> p < q \<and> q < i + length (x # xs) \<and> 0 \<le> as' ! p"
      with ati have "p \<noteq> i" by auto
      with pq have "Suc i \<le> p \<and> p < q \<and> q < Suc i + length xs \<and> 0 \<le> as' ! p" by simp
      with inj \<open>injective\<close> show "as' ! p \<noteq> as' ! q" by blast
    qed
    from l keep un' inj' show ?thesis by simp
  next
    case True
    with rest obtain idx where
      c: "(if tk = ''first'' then first_where (\<lambda>d. flt d tol) dx else np_argmin dx) = Inr idx"
      and run: "attribute_loop arr tol injective tk (Suc i) xs
                      (msk[idx := injective], as[i := int idx]) = Inr (msk', as')"
      by (auto simp: ebind_Inr_iff)
    from chosen_index[OF m True c] ldx have idx: "idx < length arr" and near: "flt (dx ! idx) tol"
      by simp_all
    have unmasked: "\<not> msk ! idx"
    proof
      assume "msk ! idx"
      with idx Cons.prems(3) have "dx ! idx = fabs (fsub fill_value x)"
        by (simp add: dx_def filled_nth length_filled)
      with near gx show False by simp
    qed
    have near_arr: "flt (fabs (fsub (arr ! idx) x)) tol"
      using near unmasked idx Cons.prems(3) by (simp add: dx_def filled_nth length_filled)
    have neg: "\<forall>p. Suc i \<le> p \<and> p < length (as[i := int idx]) \<longrightarrow> as[i := int idx] ! p = - 1"
      using Cons.prems(5) by simp
    have lm: "length (msk[idx := injective]) = length arr" using Cons.prems(3) by simp
    have len1: "Suc i + length xs \<le> length (as[i := int idx])" using len' by simp
    note ih = Cons.IH[OF run guard' lm len1 neg]
    from ih have l: "length as' = length as"
      and keep: "\<forall>p < Suc i. as' ! p = as[i := int idx] ! p"
      and un: "\<forall>p. Suc i \<le> p \<and> p < Suc i + length xs \<longrightarrow>
           as' ! p = - 1
         \<or> (0 \<le> as' ! p \<and> nat (as' ! p) < length arr
              \<and> \<not> msk[idx := injective] ! nat (as' ! p)
              \<and> flt (fabs (fsub (arr ! nat (as' ! p)) (xs ! (p - Suc i)))) tol)"
      and inj: "injective \<longrightarrow>
           (\<forall>p q. Suc i \<le> p \<and> p < q \<and> q < Suc i + length xs \<and> 0 \<le> as' ! p
              \<longrightarrow> as' ! p \<noteq> as' ! q)"
      by simp_all
    from keep i_lt have ati: "as' ! i = int idx" by simp
    from keep have keep': "\<forall>p < i. as' ! p = as ! p" by simp
    have later: "as' ! p = - 1
         \<or> (0 \<le> as' ! p \<and> nat (as' ! p) < length arr \<and> \<not> msk ! nat (as' ! p)
              \<and> flt (fabs (fsub (arr ! nat (as' ! p)) (xs ! (p - Suc i)))) tol
              \<and> (injective \<longrightarrow> nat (as' ! p) \<noteq> idx))"
      if p: "Suc i \<le> p \<and> p < Suc i + length xs" for p
    proof -
      from un p have "as' ! p = - 1
         \<or> (0 \<le> as' ! p \<and> nat (as' ! p) < length arr
              \<and> \<not> msk[idx := injective] ! nat (as' ! p)
              \<and> flt (fabs (fsub (arr ! nat (as' ! p)) (xs ! (p - Suc i)))) tol)" by blast
      then show ?thesis
      proof
        assume "as' ! p = - 1"
        then show ?thesis by simp
      next
        assume a: "0 \<le> as' ! p \<and> nat (as' ! p) < length arr
              \<and> \<not> msk[idx := injective] ! nat (as' ! p)
              \<and> flt (fabs (fsub (arr ! nat (as' ! p)) (xs ! (p - Suc i)))) tol"
        show ?thesis
        proof (cases "nat (as' ! p) = idx")
          case True
          with a idx Cons.prems(3) have "\<not> injective" by simp
          with a True unmasked show ?thesis by simp
        next
          case False
          with a have "\<not> msk ! nat (as' ! p)" by simp
          with a False show ?thesis by simp
        qed
      qed
    qed
    have un': "\<forall>p. i \<le> p \<and> p < i + length (x # xs) \<longrightarrow>
           as' ! p = - 1
         \<or> (0 \<le> as' ! p \<and> nat (as' ! p) < length arr \<and> \<not> msk ! nat (as' ! p)
              \<and> flt (fabs (fsub (arr ! nat (as' ! p)) ((x # xs) ! (p - i)))) tol)"
    proof (intro allI impI)
      fix p assume p: "i \<le> p \<and> p < i + length (x # xs)"
      show "as' ! p = - 1
         \<or> (0 \<le> as' ! p \<and> nat (as' ! p) < length arr \<and> \<not> msk ! nat (as' ! p)
              \<and> flt (fabs (fsub (arr ! nat (as' ! p)) ((x # xs) ! (p - i)))) tol)"
      proof (cases "p = i")
        case True
        with ati idx unmasked near_arr show ?thesis by simp
      next
        case False
        with p have p': "Suc i \<le> p \<and> p < Suc i + length xs" by simp
        then have "(x # xs) ! (p - i) = xs ! (p - Suc i)" by (simp add: Suc_diff_le)
        with later[OF p'] show ?thesis by auto
      qed
    qed
    have inj': "injective \<longrightarrow>
           (\<forall>p q. i \<le> p \<and> p < q \<and> q < i + length (x # xs) \<and> 0 \<le> as' ! p
              \<longrightarrow> as' ! p \<noteq> as' ! q)"
    proof (intro allI impI)
      fix p q assume ij: injective
        and pq: "i \<le> p \<and> p < q \<and> q < i + length (x # xs) \<and> 0 \<le> as' ! p"
      show "as' ! p \<noteq> as' ! q"
      proof (cases "p = i")
        case True
        with pq have "Suc i \<le> q \<and> q < Suc i + length xs" by simp
        from later[OF this] ij have "as' ! q = - 1 \<or> (0 \<le> as' ! q \<and> nat (as' ! q) \<noteq> idx)"
          by blast
        with True ati show ?thesis by auto
      next
        case False
        with pq have "Suc i \<le> p \<and> p < q \<and> q < Suc i + length xs \<and> 0 \<le> as' ! p" by simp
        with inj ij show ?thesis by blast
      qed
    qed
    from l keep' un' inj' show ?thesis by simp
  qed
qed

lemma attribute_times_loop:
  assumes "attribute_times arr events tol injective tk = Inr assigned"
  shows "\<exists>msk'. attribute_loop arr tol injective (lower tk) 0 events
                  (masked_invalid arr, replicate (length events) (- 1)) = Inr (msk', assigned)"
  using assms
  by (auto simp: attribute_times_def Let_def ebind_Inr_iff split: if_splits)

text \<open>
  Away from the fill value the matches of attribute_times are as the docstring says:
  every index assigned points at a finite entry of \<open>arr\<close> within tolerance of its
  event, and with \<open>injective=True\<close> no index is assigned twice.
\<close>

lemma attribute_times_away_from_fill:
  assumes run: "attribute_times arr events tol injective tk = Inr assigned"
    and guard: "\<forall>x \<in> set events. \<not> flt (fabs (fsub fill_value x)) tol"
  shows "length assigned = length events
     \<and> (\<forall>p < length events.
           assigned ! p = - 1
         \<or> (0 \<le> assigned ! p \<and> nat (assigned ! p) < length arr
              \<and> isfinite (arr ! nat (assigned ! p))
              \<and> flt (fabs (fsub (arr ! nat (assigned ! p)) (events ! p))) tol))
     \<and> (injective \<longrightarrow>
           (\<forall>p q. p < q \<and> q < length events \<and> 0 \<le> assigned ! p
              \<longrightarrow> assigned ! p \<noteq> assigned ! q))"
proof -
  from attribute_times_loop[OF run] obtain msk' where
    loop: "attribute_loop arr tol injective (lower tk) 0 events
             (masked_invalid arr, replicate (length events) (- 1)) = Inr (msk', assigned)"
    by blast
  have lm: "length (masked_invalid arr) = length arr" by (simp add: masked_invalid_def)
  have len: "0 + length events \<le> length (replicate (length events) (- 1 :: int))" by simp
  have neg: "\<forall>p. 0 \<le> p \<and> p < length (replicate (length events) (- 1 :: int))
               \<longrightarrow> replicate (length events) (- 1 :: int) ! p = - 1" by simp
  note inv = attribute_loop_unmasked[OF loop guard lm len neg]
  from inv have l: "length assigned = length events" by simp
  from inv have un: "\<forall>p. 0 \<le> p \<and> p < 0 + length events \<longrightarrow>
           assigned ! p = - 1
         \<or> (0 \<le> assigned ! p \<and> nat (assigned ! p) < length arr
              \<and> \<not> masked_invalid arr ! nat (assigned ! p)
              \<and> flt (fabs (fsub (arr ! nat (assigned ! p)) (events ! (p - 0)))) tol)"
    by blast
  from inv have inj: "injective \<longrightarrow>
           (\<forall>p q. 0 \<le> p \<and> p < q \<and> q < 0 + length events \<and> 0 \<le> assigned ! p
              \<longrightarrow> assigned ! p \<noteq> assigned ! q)"
    by blast
  have fin: "assigned ! p = - 1
         \<or> (0 \<le> assigned ! p \<and> nat (assigned ! p) < length arr
              \<and> isfinite (arr ! nat (assigned ! p))
              \<and> flt (fabs (fsub (arr ! nat (assigned ! p)) (events ! p))) tol)"
    if p: "p < length events" for p
  proof -
    from un p have "assigned ! p = - 1
         \<or> (0 \<le> assigned ! p \<and> nat (assigned ! p) < length arr
              \<and> \<not> masked_invalid arr ! nat (assigned ! p)
              \<and> flt (fabs (fsub (arr ! nat (assigned ! p)) (events ! p))) tol)"
      by simp
    then show ?thesis by (auto simp: masked_invalid_def)
  qed
  from l fin inj show ?thesis by simp
qed

lemma attribute_loop_monotone:
  assumes "attribute_loop (map Fin a) (Fin t) injective ''first'' i (map Fin e) (msk, as)
             = Inr (msk', as')"
    and "\<forall>x \<in> set e. \<not> flt (fabs (fsub fill_value (Fin x))) (Fin t)"
    and "length msk = length a"
    and "i + length e \<le> length as"
    and "\<forall>p. i \<le> p \<and> p < length as \<longrightarrow> as ! p = - 1"
    and "sorted_wrt (<) a" and "sorted_wrt (<) e"
  shows "\<forall>p q. i \<le> p \<and> p < q \<and> q < i + length e \<and> 0 \<le> as' ! p \<and> 0 \<le> as' ! q
           \<longrightarrow> as' ! p \<le> as' ! q"
  using assms
proof (induction e arbitrary: i msk as)
  case Nil
  then show ?case by simp
next
  case (Cons x xs)
  let ?arr = "map Fin a" and ?tol = "Fin t"
  define dx where "dx = map (\<lambda>v. fabs (fsub v (Fin x))) (filled ?arr msk)"
  have ldx: "length dx = length a"
    using Cons.prems(3) by (simp add: dx_def length_filled)
  from Cons.prems(1) have "ebind (np_min dx) (\<lambda>m.
        if flt m ?tol then
          ebind (if ''first'' = ''first'' then first_where (\<lambda>d. flt d ?tol) dx else np_argmin dx)
            (\<lambda>idx. attribute_loop ?arr ?tol injective ''first'' (Suc i) (map Fin xs)
                      (msk[idx := injective], as[i := int idx]))
        else attribute_loop ?arr ?tol injective ''first'' (Suc i) (map Fin xs) (msk, as))
       = Inr (msk', as')"
    unfolding dx_def by (simp only: list.map attribute_loop.simps Let_def)
  then obtain m where m: "np_min dx = Inr m"
    and rest: "(if flt m ?tol then
          ebind (if ''first'' = ''first'' then first_where (\<lambda>d. flt d ?tol) dx else np_argmin dx)
            (\<lambda>idx. attribute_loop ?arr ?tol injective ''first'' (Suc i) (map Fin xs)
                      (msk[idx := injective], as[i := int idx]))
        else attribute_loop ?arr ?tol injective ''first'' (Suc i) (map Fin xs) (msk, as))
       = Inr (msk', as')"
    by (auto simp: ebind_Inr_iff)
  from Cons.prems(4) have i_lt: "i < length as"
    and len': "Suc i + length (map Fin xs) \<le> length as"
    and len'': "Suc i + length xs \<le> length as" by simp_all
  from Cons.prems(2) have guard': "\<forall>x \<in> set xs. \<not> flt (fabs (fsub fill_value (Fin x))) ?tol"
    and guardF: "\<forall>v \<in> set (map Fin xs). \<not> flt (fabs (fsub fill_value v)) ?tol" by simp_all
  from Cons.prems(7) have sorted': "sorted_wrt (<) xs" and above: "\<forall>y \<in> set xs. x < y"
    by simp_all
  have lmF: "length msk = length ?arr" using Cons.prems(3) by simp
  show ?case
  proof (cases "flt m ?tol")
    case False
    with rest have run: "attribute_loop ?arr ?tol injective ''first'' (Suc i) (map Fin xs) (msk, as)
                           = Inr (msk', as')" by simp
    have neg: "\<forall>p. Suc i \<le> p \<and> p < length as \<longrightarrow> as ! p = - 1"
      using Cons.prems(5) by simp
    note ih = Cons.IH[OF run guard' Cons.prems(3) len'' neg Cons.prems(6) sorted']
    from attribute_loop_unmasked[OF run guardF lmF len' neg]
    have "\<forall>p < Suc i. as' ! p = as ! p" by blast
    with Cons.prems(5) i_lt have ati: "as' ! i = - 1" by simp
    show ?thesis
    proof (intro allI impI)
      fix p q
      assume pq: "i \<le> p \<and> p < q \<and> q < i + length (x # xs) \<and> 0 \<le> as' ! p \<and> 0 \<le> as' ! q"
      with ati have "p \<noteq> i" by auto
      with pq have "Suc i \<le> p \<and> p < q \<and> q < Suc i + length xs \<and> 0 \<le> as' ! p \<and> 0 \<le> as' ! q"
        by simp
      with ih show "as' ! p \<le> as' ! q" by blast
    qed
  next
    case True
    with rest obtain idx where
      c0: "(if ''first'' = ''first'' then first_where (\<lambda>d. flt d ?tol) dx else np_argmin dx)
             = Inr idx"
      and run: "attribute_loop ?arr ?tol injective ''first'' (Suc i) (map Fin xs)
                      (msk[idx := injective], as[i := int idx]) = Inr (msk', as')"
      by (auto simp: ebind_Inr_iff)
    from c0 have c: "first_where (\<lambda>d. flt d ?tol) dx = Inr idx" by simp
    from first_where_Inr[OF c] ldx have idx: "idx < length a" and near: "flt (dx ! idx) ?tol"
      and least: "\<forall>j < idx. \<not> flt (dx ! j) ?tol"
      by simp_all
    from Cons.prems(2) have gx: "\<not> flt (fabs (fsub fill_value (Fin x))) ?tol" by simp
    have unmasked: "\<not> msk ! idx"
    proof
      assume "msk ! idx"
      with idx Cons.prems(3) have "dx ! idx = fabs (fsub fill_value (Fin x))"
        by (simp add: dx_def filled_nth length_filled)
      with near gx show False by simp
    qed
    have near_idx: "\<bar>a ! idx - x\<bar> < t"
      using near unmasked idx Cons.prems(3)
      by (simp add: dx_def filled_nth length_filled fsub_def)
    have neg: "\<forall>p. Suc i \<le> p \<and> p < length (as[i := int idx]) \<longrightarrow> as[i := int idx] ! p = - 1"
      using Cons.prems(5) by simp
    have lm: "length (msk[idx := injective]) = length a" using Cons.prems(3) by simp
    have lmF1: "length (msk[idx := injective]) = length ?arr" using Cons.prems(3) by simp
    have len1: "Suc i + length xs \<le> length (as[i := int idx])" using len'' by simp
    have len1F: "Suc i + length (map Fin xs) \<le> length (as[i := int idx])" using len'' by simp
    note ih = Cons.IH[OF run guard' lm len1 neg Cons.prems(6) sorted']
    note inv = attribute_loop_unmasked[OF run guardF lmF1 len1F neg]
    from inv have "\<forall>p < Suc i. as' ! p = as[i := int idx] ! p" by blast
    with i_lt have ati: "as' ! i = int idx" by simp
    from inv have un: "\<forall>p. Suc i \<le> p \<and> p < Suc i + length (map Fin xs) \<longrightarrow>
           as' ! p = - 1
         \<or> (0 \<le> as' ! p \<and> nat (as' ! p) < length ?arr
              \<and> \<not> msk[idx := injective] ! nat (as' ! p)
              \<and> flt (fabs (fsub (?arr ! nat (as' ! p)) (map Fin xs ! (p - Suc i)))) ?tol)"
      by blast
    have first_le: "int idx \<le> as' ! q"
      if q: "Suc i \<le> q \<and> q < Suc i + length xs" and nn: "0 \<le> as' ! q" for q
    proof (rule ccontr)
      assume "\<not> int idx \<le> as' ! q"
      define n where "n = nat (as' ! q)"
      with nn \<open>\<not> int idx \<le> as' ! q\<close> have n_lt: "n < idx" by simp
      from un q nn have n_arr: "n < length a"
        and n_un1: "\<not> msk[idx := injective] ! n"
        and n_near: "flt (fabs (fsub (?arr ! n) (map Fin xs ! (q - Suc i)))) ?tol"
        unfolding n_def by auto
      from n_lt n_un1 have n_un: "\<not> msk ! n" by simp
      from q have qi: "q - Suc i < length xs" by auto
      define y where "y = xs ! (q - Suc i)"
      from qi above have xy: "x < y" by (simp add: y_def)
      from n_near n_arr qi have near_n: "\<bar>a ! n - y\<bar> < t"
        by (simp add: y_def fsub_def)
      from least n_lt have "\<not> flt (dx ! n) ?tol" by blast
      with n_un n_arr Cons.prems(3) have far_n: "\<not> \<bar>a ! n - x\<bar> < t"
        by (simp add: dx_def filled_nth length_filled fsub_def)
      from Cons.prems(6) n_lt idx have "a ! n < a ! idx"
        by (simp add: sorted_wrt_nth_less)
      with near_idx far_n near_n xy show False by linarith
    qed
    show ?thesis
    proof (intro allI impI)
      fix p q
      assume pq: "i \<le> p \<and> p < q \<and> q < i + length (x # xs) \<and> 0 \<le> as' ! p \<and> 0 \<le> as' ! q"
      show "as' ! p \<le> as' ! q"
      proof (cases "p = i")
        case True
        with pq have "Suc i \<le> q \<and> q < Suc i + length xs" by simp
        from first_le[OF this] pq True ati show ?thesis by simp
      next
        case False
        with pq have "Suc i \<le> p \<and> p < q \<and> q < Suc i + length xs \<and> 0 \<le> as' ! p \<and> 0 \<le> as' ! q"
          by simp
        with ih show ?thesis by blast
      qed
    qed
  qed
qed

text \<open>
  Away from the fill value, sorted finite candidates and sorted finite events are
  matched, with \<open>take='first'\<close>, at indices that never decrease.
\<close>

lemma attribute_times_monotone_away_from_fill:
  assumes run: "attribute_times (map Fin a) (map Fin e) (Fin t) injective tk = Inr assigned"
    and first: "lower tk = ''first''"
    and guard: "\<forall>x \<in> set e. \<not> flt (fabs (fsub fill_value (Fin x))) (Fin t)"
    and sa: "sorted_wrt (<) a" and se: "sorted_wrt (<) e"
  shows "\<forall>p q. p < q \<and> q < length e \<and> 0 \<le> assigned ! p \<and> 0 \<le> assigned ! q
           \<longrightarrow> assigned ! p \<le> assigned ! q"
proof -
  from attribute_times_loop[OF run] first obtain msk' where
    loop: "attribute_loop (map Fin a) (Fin t) injective ''first'' 0 (map Fin e)
             (masked_invalid (map Fin a), replicate (length (map Fin e)) (- 1)) = Inr (msk', assigned)"
    by auto
  have lm: "length (masked_invalid (map Fin a)) = length a" by (simp add: masked_invalid_def)
  have len: "0 + length e \<le> length (replicate (length (map Fin e)) (- 1 :: int))" by simp
  have neg: "\<forall>p. 0 \<le> p \<and> p < length (replicate (length (map Fin e)) (- 1 :: int))
               \<longrightarrow> replicate (length (map Fin e)) (- 1 :: int) ! p = - 1" by simp
  from attribute_loop_monotone[OF loop guard lm len neg sa se] show ?thesis by simp
qed

section \<open>Properties of groom\_pin\_state\<close>

lemma count_true_map: "count_true (map P xs) = length (filter P xs)"
  by (induction xs) (simp_all add: count_true_def)

lemma length_np_diff_int: "length (np_diff_int xs) = length xs - 1"
  by (induction xs rule: np_diff_int.induct) simp_all

lemma length_bool_select:
  "length flags \<le> length a \<Longrightarrow> length (bool_select a flags) = count_true flags"
proof (induction flags arbitrary: a)
  case Nil
  then show ?case by (simp add: bool_select_def count_true_def)
next
  case (Cons f flags)
  then obtain x a' where a: "a = x # a'" by (cases a) auto
  with Cons.prems have "length flags \<le> length a'" by simp
  from Cons.IH[OF this] show ?case using a
    by (simp add: bool_select_def count_true_def)
qed

text \<open>Upticks and downticks alternate, so their numbers follow from the number of flips.\<close>

lemma edges_alternate:
  fixes b :: bool and rest :: "bool list"
  defines "d \<equiv> np_diff_int (map of_bool (b # rest))"
  shows "(\<not> b \<longrightarrow> length (filter (\<lambda>x. x = 1) d) = (length (filter (\<lambda>x. x \<noteq> 0) d) + 1) div 2
              \<and> length (filter (\<lambda>x. x = - 1) d) = length (filter (\<lambda>x. x \<noteq> 0) d) div 2)
       \<and> (b \<longrightarrow> length (filter (\<lambda>x. x = - 1) d) = (length (filter (\<lambda>x. x \<noteq> 0) d) + 1) div 2
              \<and> length (filter (\<lambda>x. x = 1) d) = length (filter (\<lambda>x. x \<noteq> 0) d) div 2)"
  unfolding d_def
proof (induction rest arbitrary: b)
  case Nil
  then show ?case by simp
next
  case (Cons c rest)
  show ?case using Cons.IH[of c] by (cases b; cases c) auto
qed

lemma edge_counts:
  assumes "gpio \<noteq> []" and "\<not> hd gpio"
  shows "count_true (low2high gpio) = stride_size 0 (count_true (flips gpio))"
    and "count_true (high2low gpio) = stride_size 1 (count_true (flips gpio))"
proof -
  from assms obtain rest where g: "gpio = False # rest" by (cases gpio) auto
  have "count_true (low2high gpio) = (count_true (flips gpio) + 1) div 2
        \<and> count_true (high2low gpio) = count_true (flips gpio) div 2"
    using edges_alternate[of False rest] unfolding g low2high_def high2low_def flips_def
    by (simp add: count_true_def count_true_map[unfolded count_true_def])
  then show "count_true (low2high gpio) = stride_size 0 (count_true (flips gpio))"
    and "count_true (high2low gpio) = stride_size 1 (count_true (flips gpio))"
    by (simp_all add: stride_size_def)
qed

lemma length_edge_flags:
  assumes "gpio \<noteq> []"
  shows "length (low2high gpio) = length gpio" and "length (high2low gpio) = length gpio"
    and "length (flips gpio) = length gpio"
  using assms by (cases gpio; simp add: low2high_def high2low_def flips_def length_np_diff_int)+

lemma groom_checks_Inr:
  assumes "groom_checks gpio audio k = Inr r"
  shows "gpio \<noteq> [] \<and> \<not> hd gpio \<and> k = Inr r"
  using assms
  by (auto simp: groom_checks_def py_assert_Inr_iff ebind_Inr_iff dest!: py_index_0_Inr)

lemma groom_body_Inr:
  assumes "groom_body sync gpio audio ts = (w, Inr (audio', ts'))"
  shows "gpio \<noteq> [] \<and> \<not> hd gpio
       \<and> (if count_true (flips gpio) \<noteq> length (times audio)
           then groom_assign gpio audio ts else Inr (times audio)) = Inr audio'"
proof -
  from assms have c: "groom_checks gpio audio (Inr ()) = Inr ()"
    by (auto simp: groom_body_def Let_def split: sum.splits)
  from assms c have "ebind (if count_true (flips gpio) \<noteq> length (times audio)
         then groom_assign gpio audio ts else Inr (times audio))
         (\<lambda>a. ebind (sync (bool_select ts (flips gpio)) a) (\<lambda>f. Inr (a, map f ts)))
       = Inr (audio', ts')"
    by (simp add: groom_body_def Let_def)
  then have "(if count_true (flips gpio) \<noteq> length (times audio)
         then groom_assign gpio audio ts else Inr (times audio)) = Inr audio'"
    by (auto simp: ebind_Inr_iff)
  with groom_checks_Inr[OF c] show ?thesis by simp
qed

lemma groom_pin_state_Inr:
  assumes "groom_pin_state sync gpio audio ts = (w, Inr r)"
  shows "length ts \<le> length gpio \<and>
         (\<exists>w'. groom_body sync (take (length ts) gpio) audio ts = (w', Inr r))"
  using assms
  by (auto simp: groom_pin_state_def Let_def split: if_splits prod.splits)

lemma attribute_onsets_length:
  assumes "attribute_onsets gpio audio ts = Inr on" and "gpio \<noteq> []" and "length gpio \<le> length ts"
  shows "length on = count_true (low2high gpio)"
  using assms
  by (auto simp: attribute_onsets_def ebind_Inr_iff Let_def length_bool_select length_edge_flags
           dest!: attribute_times_length)

lemma attribute_offsets_length:
  assumes "attribute_offsets gpio audio ts = Inr off" and "gpio \<noteq> []" and "length gpio \<le> length ts"
  shows "length off = count_true (high2low gpio)"
  using assms
  by (auto simp: attribute_offsets_def ebind_Inr_iff Let_def length_bool_select length_edge_flags
           dest!: attribute_times_length)

lemma groom_assign_interleaved:
  assumes ga: "groom_assign gpio audio ts = Inr audio'"
    and ne: "gpio \<noteq> []" and low: "\<not> hd gpio" and len: "length gpio \<le> length ts"
  shows "length audio' = count_true (flips gpio) \<and>
     (\<exists>on off. attribute_onsets gpio audio ts = Inr on \<and> attribute_offsets gpio audio ts = Inr off
        \<and> (\<forall>j \<in> set on. 0 \<le> j) \<and> (\<forall>j \<in> set off. 0 \<le> j)
        \<and> length on = count_true (low2high gpio) \<and> length off = count_true (high2low gpio)
        \<and> length on + length off = length audio'
        \<and> (\<forall>k < length on. audio' ! (2 * k) = evens (times audio) ! nat (on ! k))
        \<and> (\<forall>k < length off. audio' ! (2 * k + 1) = odds (times audio) ! nat (off ! k)))"
proof -
  define F where "F = count_true (flips gpio)"
  from ga obtain on onsets' off offsets' b where
    on: "attribute_onsets gpio audio ts = Inr on" and on_nn: "\<forall>j \<in> set on. - 1 < j"
    and onsets': "py_take (evens (times audio)) on = Inr onsets'"
    and off: "attribute_offsets gpio audio ts = Inr off" and off_nn: "\<forall>j \<in> set off. - 1 < j"
    and offsets': "py_take (odds (times audio)) off = Inr offsets'"
    and b: "set_stride (replicate F (Fin 0)) 0 onsets' = Inr b"
    and a: "set_stride b 1 offsets' = Inr audio'"
    unfolding groom_assign_def F_def
    by (auto simp: ebind_Inr_iff py_assert_Inr_iff)
  have lon: "length on = stride_size 0 F"
    using attribute_onsets_length[OF on ne len] edge_counts(1)[OF ne low] by (simp add: F_def)
  have loff: "length off = stride_size 1 F"
    using attribute_offsets_length[OF off ne len] edge_counts(2)[OF ne low] by (simp add: F_def)
  have lb: "length b = F" using set_stride_length[OF b] by simp
  have la: "length audio' = F" using set_stride_length[OF a] lb by simp
  have lon': "length onsets' = length on" and loff': "length offsets' = length off"
    using py_take_Inr[OF onsets'] py_take_Inr[OF offsets'] by simp_all
  have ev: "audio' ! (2 * k) = evens (times audio) ! nat (on ! k)" if k: "k < length on" for k
  proof -
    from k lon have kF: "2 * k < F" by (simp add: stride_size_def)
    have "\<not> on_stride 1 (2 * k)" by (cases k) (simp_all add: on_stride_def)
    then have "audio' ! (2 * k) = b ! (2 * k)"
      using set_stride_off[OF a] kF lb by simp
    also have "\<dots> = onsets' ! k"
      using set_stride_on[OF b, of k] kF lon lon' by simp
    also have "\<dots> = evens (times audio) ! nat (on ! k)"
    proof -
      from k on_nn have "0 \<le> on ! k" using nth_mem[of k on] by fastforce
      with py_take_Inr[OF onsets'] k show ?thesis by blast
    qed
    finally show ?thesis .
  qed
  have od: "audio' ! (2 * k + 1) = odds (times audio) ! nat (off ! k)" if k: "k < length off" for k
  proof -
    from k loff have kF: "2 * k + 1 < F" by (simp add: stride_size_def)
    have "audio' ! (1 + 2 * k) = offsets' ! k"
      using set_stride_on[OF a, of k] kF lb loff loff' by simp
    also have "\<dots> = odds (times audio) ! nat (off ! k)"
    proof -
      from k off_nn have "0 \<le> off ! k" using nth_mem[of k off] by fastforce
      with py_take_Inr[OF offsets'] k show ?thesis by blast
    qed
    finally show ?thesis by (simp add: add.commute)
  qed
  have sum: "length on + length off = F"
    using lon loff by (simp add: stride_size_def)
  have nn: "\<forall>j \<in> set on. 0 \<le> j" "\<forall>j \<in> set off. 0 \<le> j"
    using on_nn off_nn by auto
  have len_on: "length on = count_true (low2high gpio)"
    by (rule attribute_onsets_length[OF on ne len])
  have len_off: "length off = count_true (high2low gpio)"
    by (rule attribute_offsets_length[OF off ne len])
  have total: "length on + length off = length audio'"
    using sum la by simp
  from la have "length audio' = count_true (flips gpio)" by (simp add: F_def)
  moreover have "\<exists>on off. attribute_onsets gpio audio ts = Inr on
        \<and> attribute_offsets gpio audio ts = Inr off
        \<and> (\<forall>j \<in> set on. 0 \<le> j) \<and> (\<forall>j \<in> set off. 0 \<le> j)
        \<and> length on = count_true (low2high gpio) \<and> length off = count_true (high2low gpio)
        \<and> length on + length off = length audio'
        \<and> (\<forall>k < length on. audio' ! (2 * k) = evens (times audio) ! nat (on ! k))
        \<and> (\<forall>k < length off. audio' ! (2 * k + 1) = odds (times audio) ! nat (off ! k))"
    using on off nn len_on len_off total ev od by blast
  ultimately show ?thesis by blast
qed

text \<open>
  C2. Whenever \<open>groom_pin_state\<close> returns, the groomed audio TTL sequence has as many
  entries as the (possibly truncated) pin state has transitions. If that number equals
  the number of TTLs, the TTL times are passed through. Otherwise every uptick has been
  attributed to an onset and every downtick to an offset (no index is negative), and the
  attributed onset times stand at the even places of the result, the attributed offset
  times at the odd places.
\<close>

theorem groom_pin_state_groomed_audio:
  assumes "groom_pin_state sync_timestamps gpio audio ts = (w, Inr (audio', ts'))"
  shows "length audio' = count_true (flips (take (length ts) gpio))
     \<and> (count_true (flips (take (length ts) gpio)) = length (times audio)
          \<longrightarrow> audio' = times audio)
     \<and> (count_true (flips (take (length ts) gpio)) \<noteq> length (times audio)
          \<longrightarrow> (\<exists>on off.
                attribute_onsets (take (length ts) gpio) audio ts = Inr on
              \<and> attribute_offsets (take (length ts) gpio) audio ts = Inr off
              \<and> (\<forall>j \<in> set on. 0 \<le> j) \<and> (\<forall>j \<in> set off. 0 \<le> j)
              \<and> length on = count_true (low2high (take (length ts) gpio))
              \<and> length off = count_true (high2low (take (length ts) gpio))
              \<and> length on + length off = length audio'
              \<and> (\<forall>k < length on. audio' ! (2 * k) = evens (times audio) ! nat (on ! k))
              \<and> (\<forall>k < length off. audio' ! (2 * k + 1) = odds (times audio) ! nat (off ! k))))"
proof -
  define g where "g = take (length ts) gpio"
  from groom_pin_state_Inr[OF assms] obtain w' where
    len: "length ts \<le> length gpio"
    and body: "groom_body sync_timestamps g audio ts = (w', Inr (audio', ts'))"
    unfolding g_def by blast
  from len have lg: "length g \<le> length ts" by (simp add: g_def)
  from groom_body_Inr[OF body] have ne: "g \<noteq> []" and low: "\<not> hd g"
    and br: "(if count_true (flips g) \<noteq> length (times audio)
              then groom_assign g audio ts else Inr (times audio)) = Inr audio'"
    by simp_all
  show ?thesis
  proof (cases "count_true (flips g) = length (times audio)")
    case True
    with br show ?thesis unfolding g_def[symmetric] by simp
  next
    case False
    with br have "groom_assign g audio ts = Inr audio'" by simp
    from groom_assign_interleaved[OF this ne low lg] False
    show ?thesis unfolding g_def[symmetric] by blast
  qed
qed

theorem groom_pin_state_groomed_audio_witness:
  "groom_pin_state sync_shift [False, True, True, False, False, True]
     \<lparr>times = [Fin 10, Fin 11, Fin 20, Fin 21, Fin 40, Fin 41],
       polarities = [1, - 1, 1, - 1, 1, - 1]\<rparr>
     [Fin 0, Fin 1, Fin 2, Fin 3, Fin 4, Fin 31]
   = ([Warning ''more audio TTLs than GPIO state changes, assigning timestamps''],
      Inr ([Fin 10, Fin 11, Fin 40],
           [Fin 9, Fin 10, Fin 11, Fin 12, Fin 13, Fin 40]))
   \<and> length [Fin 10, Fin 11, Fin 40]
       = count_true (flips (take (length [Fin 0, Fin 1, Fin 2, Fin 3, Fin 4, Fin 31])
                             [False, True, True, False, False, True]))"
proof -
  have run: "groom_pin_state sync_shift [False, True, True, False, False, True]
     \<lparr>times = [Fin 10, Fin 11, Fin 20, Fin 21, Fin 40, Fin 41],
       polarities = [1, - 1, 1, - 1, 1, - 1]\<rparr>
     [Fin 0, Fin 1, Fin 2, Fin 3, Fin 4, Fin 31]
   = ([Warning ''more audio TTLs than GPIO state changes, assigning timestamps''],
      Inr ([Fin 10, Fin 11, Fin 40],
           [Fin 9, Fin 10, Fin 11, Fin 12, Fin 13, Fin 40]))"
    by code_simp
  from groom_pin_state_groomed_audio[OF run] run show ?thesis by blast
qed


lemma length5E:
  assumes "length ts = 5"
  obtains a b c d e where "ts = [a, b, c, d, e]"
proof -
  from assms obtain a t1 where 1: "ts = a # t1" "length t1 = 4" by (cases ts) auto
  then obtain b t2 where 2: "t1 = b # t2" "length t2 = 3" by (cases t1) auto
  then obtain c t3 where 3: "t2 = c # t3" "length t3 = 2" by (cases t2) auto
  then obtain d t4 where 4: "t3 = d # t4" "length t4 = 1" by (cases t3) auto
  then obtain e where 5: "t4 = [e]" by (cases t4) auto
  from 1 2 3 4 5 that show thesis by simp
qed

lemma isfiniteE: "isfinite v \<Longrightarrow> (\<And>r. v = Fin r \<Longrightarrow> P) \<Longrightarrow> P"
  by (cases v) simp_all

text \<open>
  C8. The scenario with pin state \<open>[F, F, T, T, F]\<close> and three audio TTLs at
  \<open>[1.0, 1.02, 1.5]\<close> with polarities \<open>[1, -1, 1]\<close>. The claim is that
  \<open>groom_pin_state\<close> fails on the check of the polarities for any five frame times.
  It does not: the polarities alternate, no check looks at the parity of their number,
  every assertion holds, and with frame times \<open>[0, 1, 2, 3, 4]\<close> the function
  returns the groomed TTLs \<open>[1.0, 1.02]\<close>.
\<close>

theorem groom_pin_state_odd_ttl_counterexample:
  "groom_checks [False, False, True, True, False]
     \<lparr>times = [Fin 1, Fin (51 / 50), Fin (3 / 2)], polarities = [1, - 1, 1]\<rparr> (Inr ()) = Inr ()
   \<and> groom_pin_state sync_shift [False, False, True, True, False]
       \<lparr>times = [Fin 1, Fin (51 / 50), Fin (3 / 2)], polarities = [1, - 1, 1]\<rparr>
       [Fin 0, Fin 1, Fin 2, Fin 3, Fin 4]
     = ([Warning ''more audio TTLs than GPIO state changes, assigning timestamps''],
        Inr ([Fin 1, Fin (51 / 50)], [Fin (- 1), Fin 0, Fin 1, Fin 2, Fin 3]))"
  by code_simp

text \<open>
  C8, as amended. In that scenario the function takes the branch that attributes the
  TTLs: for any five frame times that are finite at the two flips (frames 2 and 4) it
  logs the warning of that branch and hands the frame times of the flips and the
  groomed TTLs \<open>[1.0, 1.02]\<close> to the drift fitter; it fails only if the fitter does.
\<close>

theorem groom_pin_state_odd_ttl_scenario:
  assumes "length ts = 5" and "isfinite (ts ! 2)" and "isfinite (ts ! 4)"
  shows "groom_pin_state sync_timestamps [False, False, True, True, False]
           \<lparr>times = [Fin 1, Fin (51 / 50), Fin (3 / 2)], polarities = [1, - 1, 1]\<rparr> ts
       = ([Warning ''more audio TTLs than GPIO state changes, assigning timestamps''],
          ebind (sync_timestamps [ts ! 2, ts ! 4] [Fin 1, Fin (51 / 50)])
            (\<lambda>fcn_a2b. Inr ([Fin 1, Fin (51 / 50)], map fcn_a2b ts)))"
proof -
  from assms(1) obtain a b c d e where ts: "ts = [a, b, c, d, e]" by (rule length5E)
  from assms(2) ts obtain x where c: "c = Fin x" by (auto elim: isfiniteE)
  from assms(3) ts obtain y where e: "e = Fin y" by (auto elim: isfiniteE)
  have checks: "groom_checks [False, False, True, True, False]
       \<lparr>times = [Fin 1, Fin (51 / 50), Fin (3 / 2)], polarities = [1, - 1, 1]\<rparr> (Inr ()) = Inr ()"
    by (simp add: groom_checks_def py_assert_def py_index_def fsub_def)
  have fl: "flips [False, False, True, True, False] = [False, False, True, False, True]"
    by (simp add: flips_def)
  have lh: "low2high [False, False, True, True, False] = [False, False, True, False, False]"
    by (simp add: low2high_def)
  have hl: "high2low [False, False, True, True, False] = [False, False, False, False, True]"
    by (simp add: high2low_def)
  have on: "attribute_onsets [False, False, True, True, False]
       \<lparr>times = [Fin 1, Fin (51 / 50), Fin (3 / 2)], polarities = [1, - 1, 1]\<rparr> ts = Inr [0]"
    by (simp add: attribute_onsets_def lh ts c bool_select_def py_index_def fsub_def
        attribute_times_def lower_def lower_char_def masked_invalid_def filled_def
        fmin2_def Let_def)
  have off: "attribute_offsets [False, False, True, True, False]
       \<lparr>times = [Fin 1, Fin (51 / 50), Fin (3 / 2)], polarities = [1, - 1, 1]\<rparr> ts = Inr [0]"
    by (simp add: attribute_offsets_def hl ts e bool_select_def py_index_def fsub_def odds_def
        attribute_times_def lower_def lower_char_def masked_invalid_def filled_def
        fmin2_def Let_def)
  have ga: "groom_assign [False, False, True, True, False]
       \<lparr>times = [Fin 1, Fin (51 / 50), Fin (3 / 2)], polarities = [1, - 1, 1]\<rparr> ts
       = Inr [Fin 1, Fin (51 / 50)]"
    by (simp add: groom_assign_def on off py_assert_def py_index_def odds_def fl count_true_def
        set_stride_def stride_size_def on_stride_def)
  show ?thesis
    using ga unfolding ts
    by (simp add: groom_pin_state_def groom_body_def checks fl count_true_def bool_select_def)
qed

theorem groom_pin_state_odd_ttl_scenario_witness:
  "groom_pin_state sync_shift [False, False, True, True, False]
     \<lparr>times = [Fin 1, Fin (51 / 50), Fin (3 / 2)], polarities = [1, - 1, 1]\<rparr>
     [Fin 5, Fin 6, Fin 7, Fin 8, Fin 9]
   = ([Warning ''more audio TTLs than GPIO state changes, assigning timestamps''],
      Inr ([Fin 1, Fin (51 / 50)], [Fin (- 1), Fin 0, Fin 1, Fin 2, Fin 3]))"
proof -
  have 1: "length [Fin 5, Fin 6, Fin 7, Fin 8, Fin 9] = 5" by simp
  have 2: "isfinite ([Fin 5, Fin 6, Fin 7, Fin 8, Fin 9] ! 2)" by simp
  have 3: "isfinite ([Fin 5, Fin 6, Fin 7, Fin 8, Fin 9] ! 4)" by simp
  show ?thesis
    unfolding groom_pin_state_odd_ttl_scenario[OF 1 2 3, of sync_shift]
    by (simp add: sync_shift_def fsub_def)
qed


text \<open>
  C10. The check of the dimensions in \<open>groom_pin_state\<close>. With fewer frame times than
  pin states the function logs a warning and goes on as it does for the pin state cut
  to the number of frame times; with more frame times than pin states it logs the
  warning and fails on its assertion, whatever the audio TTLs are; with as many frame
  times as pin states it logs no such warning and processes the pin state as it is.
\<close>

theorem groom_pin_state_length_check:
  "(length ts < length gpio \<longrightarrow>
      groom_pin_state sync_timestamps gpio audio ts =
        (case groom_pin_state sync_timestamps (take (length ts) gpio) audio ts of
           (ws, r) \<Rightarrow> (Warning ''frames times and gpio lengths don't match'' # ws, r)))
 \<and> (length gpio < length ts \<longrightarrow>
      groom_pin_state sync_timestamps gpio audio ts =
        ([Warning ''frames times and gpio lengths don't match''],
         Inl (AssertionError ''fewer GPIO events than frame times'')))
 \<and> (length ts = length gpio \<longrightarrow>
      groom_pin_state sync_timestamps gpio audio ts = groom_body sync_timestamps gpio audio ts
      \<and> Warning ''frames times and gpio lengths don't match''
          \<notin> set (fst (groom_pin_state sync_timestamps gpio audio ts)))"
proof (intro conjI impI)
  assume "length ts < length gpio"
  then show "groom_pin_state sync_timestamps gpio audio ts =
        (case groom_pin_state sync_timestamps (take (length ts) gpio) audio ts of
           (ws, r) \<Rightarrow> (Warning ''frames times and gpio lengths don't match'' # ws, r))"
    by (simp add: groom_pin_state_def Let_def split: prod.splits)
next
  assume "length gpio < length ts"
  then show "groom_pin_state sync_timestamps gpio audio ts =
        ([Warning ''frames times and gpio lengths don't match''],
         Inl (AssertionError ''fewer GPIO events than frame times''))"
    by (simp add: groom_pin_state_def Let_def)
next
  assume "length ts = length gpio"
  then show "groom_pin_state sync_timestamps gpio audio ts = groom_body sync_timestamps gpio audio ts"
    by (simp add: groom_pin_state_def)
next
  assume "length ts = length gpio"
  then show "Warning ''frames times and gpio lengths don't match''
          \<notin> set (fst (groom_pin_state sync_timestamps gpio audio ts))"
    by (auto simp: groom_pin_state_def groom_body_def Let_def split: sum.splits if_splits)
qed

theorem groom_pin_state_length_check_witness:
  "groom_pin_state sync_shift [False, True, True, False, True, True]
     \<lparr>times = [Fin 10, Fin 12], polarities = [1, - 1]\<rparr> [Fin 0, Fin 1, Fin 2, Fin 3]
   = ([Warning ''frames times and gpio lengths don't match''],
      Inr ([Fin 10, Fin 12], [Fin 9, Fin 10, Fin 11, Fin 12]))
   \<and> groom_pin_state sync_shift [False, True]
       \<lparr>times = [Fin 10, Fin 12], polarities = [1, - 1]\<rparr> [Fin 0, Fin 1, Fin 2, Fin 3]
     = ([Warning ''frames times and gpio lengths don't match''],
        Inl (AssertionError ''fewer GPIO events than frame times''))
   \<and> groom_pin_state sync_shift [False, True, True, False]
       \<lparr>times = [Fin 10, Fin 12], polarities = [1, - 1]\<rparr> [Fin 0, Fin 1, Fin 2, Fin 3]
     = ([], Inr ([Fin 10, Fin 12], [Fin 9, Fin 10, Fin 11, Fin 12]))"
proof -
  have short: "length [Fin 0, Fin 1, Fin 2, Fin 3]
                 < length [False, True, True, False, True, True]" by simp
  have long: "length [False, True] < length [Fin 0, Fin 1, Fin 2, Fin 3]" by simp
  have same: "length [Fin 0, Fin 1, Fin 2, Fin 3] = length [False, True, True, False]" by simp
  have cut: "groom_pin_state sync_shift
       (take (length [Fin 0, Fin 1, Fin 2, Fin 3]) [False, True, True, False, True, True])
       \<lparr>times = [Fin 10, Fin 12], polarities = [1, - 1]\<rparr> [Fin 0, Fin 1, Fin 2, Fin 3]
     = ([], Inr ([Fin 10, Fin 12], [Fin 9, Fin 10, Fin 11, Fin 12]))"
    by code_simp
  have body: "groom_body sync_shift [False, True, True, False]
       \<lparr>times = [Fin 10, Fin 12], polarities = [1, - 1]\<rparr> [Fin 0, Fin 1, Fin 2, Fin 3]
     = ([], Inr ([Fin 10, Fin 12], [Fin 9, Fin 10, Fin 11, Fin 12]))"
    by code_simp
  note inst = groom_pin_state_length_check[of _ _ sync_shift
               "\<lparr>times = [Fin 10, Fin 12], polarities = [1, - 1]\<rparr>"]
  from inst[of "[Fin 0, Fin 1, Fin 2, Fin 3]" "[False, True, True, False, True, True]"] short cut
  have a: "groom_pin_state sync_shift [False, True, True, False, True, True]
     \<lparr>times = [Fin 10, Fin 12], polarities = [1, - 1]\<rparr> [Fin 0, Fin 1, Fin 2, Fin 3]
   = ([Warning ''frames times and gpio lengths don't match''],
      Inr ([Fin 10, Fin 12], [Fin 9, Fin 10, Fin 11, Fin 12]))"
    by simp
  from inst[of "[Fin 0, Fin 1, Fin 2, Fin 3]" "[False, True]"] long
  have b: "groom_pin_state sync_shift [False, True]
       \<lparr>times = [Fin 10, Fin 12], polarities = [1, - 1]\<rparr> [Fin 0, Fin 1, Fin 2, Fin 3]
     = ([Warning ''frames times and gpio lengths don't match''],
        Inl (AssertionError ''fewer GPIO events than frame times''))"
    by blast
  from inst[of "[Fin 0, Fin 1, Fin 2, Fin 3]" "[False, True, True, False]"] same body
  have c: "groom_pin_state sync_shift [False, True, True, False]
       \<lparr>times = [Fin 10, Fin 12], polarities = [1, - 1]\<rparr> [Fin 0, Fin 1, Fin 2, Fin 3]
     = ([], Inr ([Fin 10, Fin 12], [Fin 9, Fin 10, Fin 11, Fin 12]))"
    by simp
  from a b c show ?thesis by blast
qed


section \<open>Properties of align\_with\_audio\<close>

lemma py_index_last_Inr: "py_index a (- 1) = Inr v \<Longrightarrow> a \<noteq> [] \<and> v = last a"
  by (cases a rule: rev_cases) (auto simp: py_index_def Let_def nth_append split: if_splits)

lemma py_take_Inr_bound:
  "py_take a js = Inr vs \<Longrightarrow> k < length js \<Longrightarrow> 0 \<le> js ! k \<Longrightarrow> nat (js ! k) < length a"
proof (induction js arbitrary: vs k)
  case Nil
  then show ?case by simp
next
  case (Cons j js)
  from Cons.prems(1) obtain v vs' where v: "py_index a j = Inr v"
    and vs': "py_take a js = Inr vs'"
    by (auto simp: ebind_Inr_iff)
  show ?case
  proof (cases k)
    case 0
    then show ?thesis using v Cons.prems(3) py_index_Inr_nonneg[of a j v] by simp
  next
    case (Suc k')
    then show ?thesis using Cons.IH[OF vs', of k'] Cons.prems by simp
  qed
qed

lemma py_slice_nth:
  assumes "0 \<le> s" and "j < length (py_slice a s e)"
  shows "nat s + j < length a \<and> py_slice a s e ! j = a ! (nat s + j)"
proof -
  define n where "n = int (length a)"
  define s' where "s' = nat (min s n)"
  define e' where "e' = nat (if e < 0 then max 0 (n + e) else min e n)"
  have sl: "py_slice a s e = take (e' - s') (drop s' a)"
    using assms(1) by (simp add: py_slice_def Let_def n_def s'_def e'_def)
  from assms(2) have j: "j < e' - s'" "j < length a - s'" by (simp_all add: sl)
  then have "s' < length a" by simp
  then have s'eq: "s' = nat s" unfolding s'_def n_def using assms(1) by (simp add: min_def split: if_splits)
  from j s'eq show ?thesis by (simp add: sl)
qed

lemma align_checks_Inr:
  "align_checks timestamps audio pin_state count k = Inr r \<longleftrightarrow>
     length count = length pin_state
   \<and> (\<forall>d \<in> set (np_diff_int count). 0 < d)
   \<and> (\<forall>d \<in> set (np_diff timestamps). flt (Fin 0) d)
   \<and> count_true (map (\<lambda>d. d = 1) (np_diff_int (map of_bool pin_state))) \<le> length audio
   \<and> k = Inr r"
  by (auto simp: align_checks_def py_assert_Inr_iff)

text \<open>What a successful run of align_with_audio went through.\<close>

lemma align_with_audio_Inr:
  assumes "align_with_audio timestamps audio pin_state count extrapolate_missing = (w, Inr out)"
  obtains first_uptick audio0 start ts' where
    "align_start timestamps audio pin_state count = Inr (first_uptick, audio0, start)"
    "0 \<le> start" "count \<noteq> []"
    "\<forall>d \<in> set (np_diff_int count). 0 < d"
    "w = (if length (py_slice timestamps start (last count + 1 + start)) < length count
          then [WarningCount (length count - length (py_slice timestamps start (last count + 1 + start)))
                  ''fewer FPGA timestamps than frame counts'']
          else [])"
    "(if length (py_slice timestamps start (last count + 1 + start)) < length count
      then align_pad (py_slice timestamps start (last count + 1 + start))
             (length count - length (py_slice timestamps start (last count + 1 + start)))
             extrapolate_missing
      else Inr (py_slice timestamps start (last count + 1 + start))) = Inr ts'"
    "length count \<le> length ts'" "int (length ts') = last count + 1"
    "py_take ts' count = Inr out"
proof -
  from assms obtain first_uptick audio0 start count_last where
    c: "align_checks timestamps audio pin_state count
             (ebind (align_start timestamps audio pin_state count) (\<lambda>(first_uptick, audio0, start).
              ebind (py_index count (- 1)) (\<lambda>count_last.
              Inr (first_uptick, audio0, start, count_last)))) = Inr (first_uptick, audio0, start, count_last)"
    by (auto simp: align_with_audio_def split: sum.splits)
  then have st: "align_start timestamps audio pin_state count = Inr (first_uptick, audio0, start)"
    and cl: "py_index count (- 1) = Inr count_last"
    and inc: "\<forall>d \<in> set (np_diff_int count). 0 < d"
    by (auto simp: align_checks_Inr ebind_Inr_iff)
  from py_index_last_Inr[OF cl] have ne: "count \<noteq> []" and cl': "count_last = last count"
    by simp_all
  from st have s0: "0 \<le> start"
    by (auto simp: align_start_def ebind_Inr_iff py_assert_Inr_iff Let_def)
  define sl where "sl = py_slice timestamps start (last count + 1 + start)"
  from assms c have w: "w = (if length sl < length count
          then [WarningCount (length count - length sl) ''fewer FPGA timestamps than frame counts'']
          else [])"
    and r: "ebind (if length sl < length count
                     then align_pad sl (length count - length sl) extrapolate_missing else Inr sl) (\<lambda>ts.
              py_assert (length count \<le> length ts) ''ts.size >= count.size'' (
              py_assert (int (length ts) = count_last + 1) ''ts.size == count[-1] + 1'' (
              ebind (py_take ts count) (\<lambda>ts.
              py_assert (searchsorted ts audio0 = first_uptick)
                ''np.searchsorted(ts, audio[0]) == first_uptick'' (Inr ts))))) = Inr out"
    unfolding sl_def by (simp_all add: align_with_audio_def Let_def cl')
  from r obtain ts' where
    p: "(if length sl < length count
         then align_pad sl (length count - length sl) extrapolate_missing else Inr sl) = Inr ts'"
    and l1: "length count \<le> length ts'" and l2: "int (length ts') = count_last + 1"
    and tk: "py_take ts' count = Inr out"
    by (auto simp: ebind_Inr_iff py_assert_Inr_iff)
  show thesis
    using that[OF st s0 ne inc w[unfolded sl_def] p[unfolded sl_def] l1 l2[unfolded cl'] tk] .
qed

text \<open>
  C1. Whenever \<open>align_with_audio\<close> returns (so every assertion held: count and pin
  state of equal length, count and timestamps strictly increasing, no more upticks than
  audio TTLs, a start offset that is not negative), for a frame counter without negative
  entries (frame numbers count from zero), the array returned has as many entries as
  the frame counter, and if the slice of the raw times needed no padding, entry \<open>i\<close>
  is the raw time at index \<open>start + count[i]\<close>.
\<close>

theorem align_with_audio_output:
  assumes run: "align_with_audio timestamps audio pin_state count extrapolate_missing = (w, Inr out)"
    and nonneg: "\<forall>c \<in> set count. 0 \<le> c"
  shows "length out = length count
     \<and> (\<exists>first_uptick audio0 start.
           align_start timestamps audio pin_state count = Inr (first_uptick, audio0, start)
         \<and> 0 \<le> start
         \<and> (length count \<le> length (py_slice timestamps start (last count + 1 + start))
              \<longrightarrow> (\<forall>i < length count.
                     nat (start + count ! i) < length timestamps
                   \<and> out ! i = timestamps ! nat (start + count ! i))))"
proof -
  from run obtain first_uptick audio0 start ts' where
    st: "align_start timestamps audio pin_state count = Inr (first_uptick, audio0, start)"
    and s0: "0 \<le> start"
    and p: "(if length (py_slice timestamps start (last count + 1 + start)) < length count
      then align_pad (py_slice timestamps start (last count + 1 + start))
             (length count - length (py_slice timestamps start (last count + 1 + start)))
             extrapolate_missing
      else Inr (py_slice timestamps start (last count + 1 + start))) = Inr ts'"
    and tk: "py_take ts' count = Inr out"
    by (rule align_with_audio_Inr)
  have len: "length out = length count" using py_take_Inr[OF tk] by simp
  have nth: "nat (start + count ! i) < length timestamps
           \<and> out ! i = timestamps ! nat (start + count ! i)"
    if nopad: "length count \<le> length (py_slice timestamps start (last count + 1 + start))"
      and i: "i < length count" for i
  proof -
    from nopad p have ts': "ts' = py_slice timestamps start (last count + 1 + start)" by simp
    from i nonneg have ci: "0 \<le> count ! i" by simp
    have b: "nat (count ! i) < length ts'" by (rule py_take_Inr_bound[OF tk i ci])
    have "out ! i = ts' ! nat (count ! i)" using py_take_Inr[OF tk] i ci by blast
    moreover have "nat start + nat (count ! i) < length timestamps
        \<and> ts' ! nat (count ! i) = timestamps ! (nat start + nat (count ! i))"
      using py_slice_nth[OF s0 b[unfolded ts']] unfolding ts' .
    moreover have "nat start + nat (count ! i) = nat (start + count ! i)"
      using s0 ci by (simp add: nat_add_distrib)
    ultimately show ?thesis by simp
  qed
  from len st s0 nth show ?thesis by blast
qed

theorem align_with_audio_output_witness:
  "align_with_audio [Fin 0, Fin 1, Fin 2, Fin 3, Fin 4, Fin 5, Fin 6] [Fin 3]
     [False, True, False] [0, 2, 3] True = ([], Inr [Fin 1, Fin 3, Fin 4])
   \<and> length [Fin 1, Fin 3, Fin 4] = length [0, 2, 3 :: int]
   \<and> [Fin 1, Fin 3, Fin 4] ! 1
       = [Fin 0, Fin 1, Fin 2, Fin 3, Fin 4, Fin 5, Fin 6] ! nat (1 + [0, 2, 3] ! 1)"
proof -
  have run: "align_with_audio [Fin 0, Fin 1, Fin 2, Fin 3, Fin 4, Fin 5, Fin 6] [Fin 3]
     [False, True, False] [0, 2, 3] True = ([], Inr [Fin 1, Fin 3, Fin 4])"
    by code_simp
  have nonneg: "\<forall>c \<in> set [0, 2, 3 :: int]. 0 \<le> c" by simp
  have start: "align_start [Fin 0, Fin 1, Fin 2, Fin 3, Fin 4, Fin 5, Fin 6] [Fin 3]
     [False, True, False] [0, 2, 3] = Inr (1, Fin 3, 1)"
    by code_simp
  have nopad: "length [0, 2, 3 :: int]
     \<le> length (py_slice [Fin 0, Fin 1, Fin 2, Fin 3, Fin 4, Fin 5, Fin 6] 1
                (last [0, 2, 3] + 1 + 1))"
    by (simp add: py_slice_def)
  from align_with_audio_output[OF run nonneg] start nopad
  have "length [Fin 1, Fin 3, Fin 4] = length [0, 2, 3 :: int]
      \<and> (\<forall>i < length [0, 2, 3 :: int]. [Fin 1, Fin 3, Fin 4] ! i
           = [Fin 0, Fin 1, Fin 2, Fin 3, Fin 4, Fin 5, Fin 6] ! nat (1 + [0, 2, 3] ! i))"
    by auto
  then have "length [Fin 1, Fin 3, Fin 4] = length [0, 2, 3 :: int]
      \<and> [Fin 1, Fin 3, Fin 4] ! 1
           = [Fin 0, Fin 1, Fin 2, Fin 3, Fin 4, Fin 5, Fin 6] ! nat (1 + [0, 2, 3] ! 1)"
    by simp
  with run show ?thesis by blast
qed


lemma np_diff_int_pos_sorted:
  "\<forall>d \<in> set (np_diff_int xs). 0 < d \<Longrightarrow> sorted_wrt (<) xs"
proof (induction xs rule: np_diff_int.induct)
  case (1 x y xs)
  then have s: "sorted_wrt (<) (y # xs)" and xy: "x < y" by simp_all
  from s have "\<forall>z \<in> set xs. y < z" by simp
  with xy have "\<forall>z \<in> set (y # xs). x < z" by auto
  with s show ?case by simp
qed simp_all

lemma sorted_int_lower:
  fixes xs :: "int list"
  assumes "sorted_wrt (<) xs" and "i \<le> j" and "j < length xs"
  shows "xs ! i + int (j - i) \<le> xs ! j"
  using assms(2,3)
proof (induction j)
  case 0
  then show ?case by simp
next
  case (Suc j)
  show ?case
  proof (cases "i = Suc j")
    case True
    then show ?thesis by simp
  next
    case False
    with Suc.prems have ij: "i \<le> j" and j: "j < length xs" by simp_all
    from assms(1) Suc.prems(2) have "xs ! j < xs ! Suc j"
      by (simp add: sorted_wrt_nth_less)
    with Suc.IH[OF ij j] ij show ?thesis by (simp add: Suc_diff_le)
  qed
qed

lemma count_is_range:
  fixes count :: "int list"
  assumes inc: "\<forall>d \<in> set (np_diff_int count). 0 < d"
    and nonneg: "\<forall>c \<in> set count. 0 \<le> c"
    and ne: "count \<noteq> []"
    and lst: "last count + 1 = int (length count)"
  shows "count = map int [0..<length count]"
proof (rule nth_equalityI)
  show "length count = length (map int [0..<length count])" by simp
next
  fix i assume i: "i < length count"
  have s: "sorted_wrt (<) count" by (rule np_diff_int_pos_sorted[OF inc])
  from ne have n: "0 < length count" by simp
  have "count ! 0 + int (i - 0) \<le> count ! i"
    by (rule sorted_int_lower[OF s _ i]) simp
  moreover from nonneg n have "0 \<le> count ! 0" by simp
  ultimately have lo: "int i \<le> count ! i" by simp
  have "count ! i + int (length count - 1 - i) \<le> count ! (length count - 1)"
    using sorted_int_lower[OF s, of i "length count - 1"] i by simp
  moreover have "count ! (length count - 1) = int (length count) - 1"
    using lst ne by (simp add: last_conv_nth)
  ultimately have hi: "count ! i \<le> int i" using i by (simp add: of_nat_diff)
  from lo hi i show "count ! i = map int [0..<length count] ! i" by simp
qed

lemma py_take_range:
  assumes "py_take a (map int [0..<length a]) = Inr vs"
  shows "vs = a"
proof (rule nth_equalityI)
  show "length vs = length a" using py_take_Inr[OF assms] by simp
next
  fix i assume "i < length vs"
  then have i: "i < length a" using py_take_Inr[OF assms] by simp
  then show "vs ! i = a ! i" using py_take_Inr[OF assms] by simp
qed

lemma align_pad_Inr:
  assumes "align_pad ts n extrapolate_missing = Inr ts'"
  shows "\<exists>frate. py_round (fdiv (Fin 1) (np_nanmedian (np_diff ts))) = Inr frate
     \<and> ts' = ts @ (if extrapolate_missing
                    then map (\<lambda>k. fadd (fdiv (Fin (real (k + 1))) (Fin (of_int frate))) (last ts))
                           [0..<n]
                    else replicate n NaN)"
  using assms
  by (cases extrapolate_missing)
     (auto simp: align_pad_def ebind_Inr_iff dest!: py_index_last_Inr)




section \<open>Properties of align\_with\_audio\_safe\<close>

text \<open>
  C3. The function should return the raw-time slice without the entries of the frames
  missing from the counter. With raw times \<open>[0, 1, 2, 3, 4, 5]\<close>, one audio TTL at
  \<open>3\<close>, pin state \<open>[F, F, T, F]\<close> and frame counter \<open>[0, 2, 3, 4]\<close> (frame 1
  missing) every assertion holds and the loop computes the pruned fragment
  \<open>[0, 2]\<close>, but the function returns the whole slice, the time of the missing frame
  included.
\<close>

theorem align_with_audio_safe_returns_unpruned_slice:
  "align_with_audio_safe [Fin 0, Fin 1, Fin 2, Fin 3, Fin 4, Fin 5] [Fin 3]
     [False, False, True, False] [0, 2, 3, 4] True
     = Inr [Fin 0, Fin 1, Fin 2, Fin 3, Fin 4, Fin 5]"
  by code_simp

text \<open>
  Whatever the frame counter says, a run of align_with_audio_safe that returns gives back
  the raw times from the start offset on: the fragments pruned in the loop are not used.
\<close>

lemma align_with_audio_safe_returns_slice:
  assumes "align_with_audio_safe timestamps audio pin_state count extrapolate_missing = Inr out"
  shows "\<exists>first_uptick audio0 start.
           align_start timestamps audio pin_state count = Inr (first_uptick, audio0, start)
         \<and> out = py_slice timestamps start (int (length timestamps))"
  using assms
  by (auto simp: align_with_audio_safe_def align_checks_def align_start_def
        py_assert_Inr_iff ebind_Inr_iff Let_def)

section \<open>Properties of \_times\_from\_bpod\<close>

text \<open>
  The times of \<open>spec_gap_points\<close> lie strictly inside the gap and are evenly spaced: each
  is one step of \<open>gap / (n + 1)\<close> after the one before.
\<close>

lemma spec_gap_points_nth:
  assumes "j < nat (round_half_even (gap * f) - 1)"
  shows "spec_gap_points t_last gap f ! j
           = Fin (t_last + gap / real (nat (round_half_even (gap * f) - 1) + 1) * real (j + 1))"
  using assms by (simp add: spec_gap_points_def Let_def)

lemma spec_gap_points_inside:
  assumes "0 < gap" and "j < nat (round_half_even (gap * f) - 1)"
  shows "t_last < fin_val (spec_gap_points t_last gap f ! j)
       \<and> fin_val (spec_gap_points t_last gap f ! j) < t_last + gap"
proof -
  define n where "n = nat (round_half_even (gap * f) - 1)"
  from assms(2) have j: "j < n" by (simp add: n_def)
  have v: "fin_val (spec_gap_points t_last gap f ! j) = t_last + gap / real (n + 1) * real (j + 1)"
    using spec_gap_points_nth[OF assms(2)] by (simp add: n_def)
  have pos: "0 < gap / real (n + 1) * real (j + 1)" using assms(1) by simp
  have "real (j + 1) < real (n + 1)" using j by simp
  then have "real (j + 1) / real (n + 1) < 1" by simp
  then have "gap * (real (j + 1) / real (n + 1)) < gap * 1"
    using assms(1) by (rule mult_strict_left_mono)
  then have "gap / real (n + 1) * real (j + 1) < gap" by (simp add: field_simps)
  with pos v show ?thesis by simp
qed

lemma map_err_Inr:
  "map_err f xs = Inr ys \<Longrightarrow> length ys = length xs \<and> (\<forall>i < length xs. f (xs ! i) = Inr (ys ! i))"
proof (induction xs arbitrary: ys)
  case Nil
  then show ?case by simp
next
  case (Cons x xs)
  from Cons.prems obtain y ys' where y: "f x = Inr y" and ys': "map_err f xs = Inr ys'"
    and ys: "ys = y # ys'"
    by (auto simp: ebind_Inr_iff)
  from Cons.IH[OF ys'] have ih: "length ys' = length xs" "\<forall>i < length xs. f (xs ! i) = Inr (ys' ! i)"
    by simp_all
  show ?case
  proof (intro conjI allI impI)
    show "length ys = length (x # xs)" using ih ys by simp
  next
    fix i assume "i < length (x # xs)"
    then show "f ((x # xs) ! i) = Inr (ys ! i)"
      using y ih ys by (cases i) simp_all
  qed
qed

lemma slice_assign_append:
  assumes "length vals \<le> length zs"
  shows "slice_assign (pre @ zs) (int (length pre)) (int (length pre) + int (length vals)) vals
           = Inr (pre @ vals @ drop (length vals) zs)"
proof -
  have "slice_assign (pre @ zs) (int (length pre)) (int (length pre + length vals)) vals
           = Inr (pre @ vals @ drop (length vals) zs)"
    unfolding slice_assign_def Let_def
    using assms by (simp add: min_def del: of_nat_add)
  then show ?thesis by simp
qed

lemma wrap32_id: "- 2147483648 \<le> x \<Longrightarrow> x \<le> 2147483647 \<Longrightarrow> wrap32 x = x"
  by (simp add: wrap32_def)

lemma to_int32_of_int:
  "to_int32 (Fin (of_int r)) = Inr n \<Longrightarrow> n = r \<and> - 2147483648 \<le> r \<and> r \<le> 2147483647"
  by (auto simp: to_int32_def Let_def split: if_splits)

lemma missed_frames_Inr:
  assumes "missed_frames (Fin f) (Fin g) = Inr n" and "1 \<le> round_half_even (g * f)"
  shows "n = round_half_even (g * f) - 1 \<and> wrap32 (n + 1) = round_half_even (g * f)"
proof -
  from assms(1) obtain m where m: "to_int32 (Fin (of_int (round_half_even (g * f)))) = Inr m"
    and n: "n = wrap32 (m - 1)"
    by (auto simp: missed_frames_def ebind_Inr_iff)
  from to_int32_of_int[OF m] have r: "m = round_half_even (g * f)" "m \<le> 2147483647" by simp_all
  with assms(2) n have "n = m - 1" by (simp add: wrap32_id)
  with r assms(2) show ?thesis by (simp add: wrap32_id)
qed

lemma py_index_nat: "i < length a \<Longrightarrow> py_index a (int i) = Inr (a ! i)"
  by (simp add: py_index_def Let_def)

lemma py_index_last: "a \<noteq> [] \<Longrightarrow> py_index a (- 1) = Inr (last a)"
  by (cases a rule: rev_cases) (simp_all add: py_index_def Let_def nth_append)

lemma gap_values:
  assumes "1 \<le> r"
  shows "map (\<lambda>k. fadd (Fin x) (fmul (fdiv (Fin g) (Fin (of_int r))) (Fin (real (k + 1)))))
             [0..<nat (r - 1)]
       = map (\<lambda>j. Fin (x + g / real (nat (r - 1) + 1) * real (j + 1))) [0..<nat (r - 1)]"
proof -
  from assms have "real (nat (r - 1) + 1) = of_int r" by simp
  moreover from assms have "(of_int r :: real) \<noteq> 0" by simp
  ultimately show ?thesis by simp
qed

lemma fill_frames_spec:
  assumes "\<forall>c \<in> set cs. c \<noteq> []"
    and "trial + length cs = ncam"
    and "length missed = ncam - 1" and "length dur = ncam - 1"
    and "\<forall>k. Suc k < length cs \<longrightarrow>
          (\<exists>x y. last (cs ! k) = Fin x \<and> hd (cs ! Suc k) = Fin y
               \<and> dur ! (trial + k) = Fin (y - x)
               \<and> 1 \<le> round_half_even ((y - x) * f)
               \<and> missed ! (trial + k) = round_half_even ((y - x) * f) - 1
               \<and> wrap32 (missed ! (trial + k) + 1) = round_half_even ((y - x) * f))"
    and "length zs = length (spec_interleave cs f)"
  shows "fill_frames missed dur ncam trial cs (int (length pre)) (pre @ zs)
           = Inr (pre @ spec_interleave cs f)"
  using assms
proof (induction cs f arbitrary: trial pre zs rule: spec_interleave.induct)
  case (1 f)
  then show ?case by simp
next
  case (2 c f)
  from "2.prems"(6) have lz: "length c \<le> length zs" "drop (length c) zs = []" by simp_all
  from "2.prems"(2) have last_trial: "int trial = int ncam - 1" by auto
  show ?case
    using slice_assign_append[OF lz(1), of pre] lz(2) last_trial by simp
next
  case (3 c c' cs f)
  let ?all = "c # c' # cs"
  from "3.prems"(1) have cne: "c \<noteq> []" by simp
  from "3.prems"(5)[rule_format, of 0] obtain x y where
    lx: "last c = Fin x" and hy: "hd c' = Fin y" and d: "dur ! trial = Fin (y - x)"
    and r1: "1 \<le> round_half_even ((y - x) * f)"
    and m: "missed ! trial = round_half_even ((y - x) * f) - 1"
    and wr: "wrap32 (missed ! trial + 1) = round_half_even ((y - x) * f)"
    by auto
  define r where "r = round_half_even ((y - x) * f)"
  define vals where "vals = spec_gap_points x (y - x) f"
  have lvals: "int (length vals) = r - 1"
    using r1 by (simp add: vals_def spec_gap_points_def r_def Let_def)
  have interleave: "spec_interleave ?all f = c @ vals @ spec_interleave (c' # cs) f"
    by (simp add: vals_def lx hy)
  from "3.prems"(6) interleave have lz: "length c \<le> length zs"
    and lz2: "length vals \<le> length (drop (length c) zs)"
    and lz3: "length (drop (length vals) (drop (length c) zs)) = length (spec_interleave (c' # cs) f)"
    by simp_all
  from "3.prems"(2) have not_last: "int trial \<noteq> int ncam - 1" and tr: "trial < ncam - 1" by auto
  have step1: "slice_assign (pre @ zs) (int (length pre)) (int (length pre) + int (length c)) c
      = Inr ((pre @ c) @ drop (length c) zs)"
    using slice_assign_append[OF lz, of pre] by simp
  have code_vals: "map (\<lambda>k. fadd (Fin x) (fmul (fdiv (Fin (y - x)) (Fin (of_int r))) (Fin (real (k + 1)))))
             [0..<nat (r - 1)] = vals"
    using gap_values[of r x "y - x"] r1
    by (simp add: vals_def spec_gap_points_def r_def Let_def)
  have step2: "slice_assign ((pre @ c) @ drop (length c) zs)
       (int (length pre) + int (length c)) (int (length pre) + int (length c) + (r - 1)) vals
      = Inr (((pre @ c) @ vals) @ drop (length vals) (drop (length c) zs))"
    using slice_assign_append[OF lz2, of "pre @ c"] lvals by simp
  have ih: "fill_frames missed dur ncam (Suc trial) (c' # cs) (int (length ((pre @ c) @ vals)))
              (((pre @ c) @ vals) @ drop (length vals) (drop (length c) zs))
          = Inr (((pre @ c) @ vals) @ spec_interleave (c' # cs) f)"
  proof (rule "3.IH")
    show "\<forall>c \<in> set (c' # cs). c \<noteq> []" using "3.prems"(1) by simp
    show "Suc trial + length (c' # cs) = ncam" using "3.prems"(2) by simp
    show "length missed = ncam - 1" by (rule "3.prems"(3))
    show "length dur = ncam - 1" by (rule "3.prems"(4))
    show "\<forall>k. Suc k < length (c' # cs) \<longrightarrow>
          (\<exists>x y. last ((c' # cs) ! k) = Fin x \<and> hd ((c' # cs) ! Suc k) = Fin y
               \<and> dur ! (Suc trial + k) = Fin (y - x)
               \<and> 1 \<le> round_half_even ((y - x) * f)
               \<and> missed ! (Suc trial + k) = round_half_even ((y - x) * f) - 1
               \<and> wrap32 (missed ! (Suc trial + k) + 1) = round_half_even ((y - x) * f))"
    proof (intro allI impI)
      fix k assume "Suc k < length (c' # cs)"
      then have "Suc (Suc k) < length ?all" by simp
      from "3.prems"(5)[rule_format, OF this] show "\<exists>x y. last ((c' # cs) ! k) = Fin x
               \<and> hd ((c' # cs) ! Suc k) = Fin y
               \<and> dur ! (Suc trial + k) = Fin (y - x)
               \<and> 1 \<le> round_half_even ((y - x) * f)
               \<and> missed ! (Suc trial + k) = round_half_even ((y - x) * f) - 1
               \<and> wrap32 (missed ! (Suc trial + k) + 1) = round_half_even ((y - x) * f)"
        by simp
    qed
    show "length (drop (length vals) (drop (length c) zs)) = length (spec_interleave (c' # cs) f)"
      by (rule lz3)
  qed
  have idx: "int (length ((pre @ c) @ vals)) = int (length pre) + int (length c) + (r - 1)"
    using lvals by simp
  have pm: "py_index missed (int trial) = Inr (r - 1)"
    using py_index_nat[of trial missed] tr "3.prems"(3) m by (simp add: r_def)
  have pd: "py_index dur (int trial) = Inr (Fin (y - x))"
    using py_index_nat[of trial dur] tr "3.prems"(4) d by simp
  have pl: "py_index c (- 1) = Inr (Fin x)"
    using py_index_last[OF cne] lx by simp
  have wr': "wrap32 (r - 1 + 1) = r" using wr m by (simp add: r_def)
  have "fill_frames missed dur ncam trial ?all (int (length pre)) (pre @ zs)
      = fill_frames missed dur ncam (Suc trial) (c' # cs)
          (int (length pre) + int (length c) + (r - 1))
          (((pre @ c) @ vals) @ drop (length vals) (drop (length c) zs))"
    apply (subst fill_frames.simps(2))
    apply (simp only: step1 ebind_Inr_simp Let_def not_last if_False pm pd pl wr' code_vals step2)
    done
  also have "\<dots> = Inr (((pre @ c) @ vals) @ spec_interleave (c' # cs) f)"
    using ih unfolding idx .
  finally have "fill_frames missed dur ncam trial ?all (int (length pre)) (pre @ zs)
      = Inr (((pre @ c) @ vals) @ spec_interleave (c' # cs) f)" .
  then show ?case unfolding interleave by (simp only: append_assoc)
qed

lemma length_spec_gap_points:
  "length (spec_gap_points t gap f) = nat (round_half_even (gap * f) - 1)"
  by (simp add: spec_gap_points_def Let_def)

lemma length_spec_interleave:
  assumes "length missed = length cs - 1"
    and "\<forall>k. Suc k < length cs \<longrightarrow>
           missed ! k = int (length (spec_gap_points (fin_val (last (cs ! k)))
                               (fin_val (hd (cs ! Suc k)) - fin_val (last (cs ! k))) f))"
  shows "int (length (spec_interleave cs f)) = int (sum_list (map length cs)) + sum_list missed"
  using assms
proof (induction cs f arbitrary: missed rule: spec_interleave.induct)
  case (1 f)
  then show ?case by simp
next
  case (2 c f)
  then show ?case by simp
next
  case (3 c c' cs f)
  from "3.prems"(1) obtain m0 missed' where ms: "missed = m0 # missed'"
    and l': "length missed' = length (c' # cs) - 1"
    by (cases missed) auto
  from "3.prems"(2)[rule_format, of 0] ms
  have m0: "m0 = int (length (spec_gap_points (fin_val (last c)) (fin_val (hd c') - fin_val (last c)) f))"
    by simp
  have "\<forall>k. Suc k < length (c' # cs) \<longrightarrow>
           missed' ! k = int (length (spec_gap_points (fin_val (last ((c' # cs) ! k)))
                               (fin_val (hd ((c' # cs) ! Suc k)) - fin_val (last ((c' # cs) ! k))) f))"
  proof (intro allI impI)
    fix k assume "Suc k < length (c' # cs)"
    then have "Suc (Suc k) < length (c # c' # cs)" by simp
    from "3.prems"(2)[rule_format, OF this] ms
    show "missed' ! k = int (length (spec_gap_points (fin_val (last ((c' # cs) ! k)))
                               (fin_val (hd ((c' # cs) ! Suc k)) - fin_val (last ((c' # cs) ! k))) f))"
      by simp
  qed
  from "3.IH"[OF l' this] m0 ms show ?case by simp
qed

lemma extrapolate_video_Inr:
  assumes "extrapolate_video frate videos ft = Inr out"
  shows "\<exists>nframes. videos = [nframes]
     \<and> out = ft @ (if length ft < nframes
                   then map (\<lambda>k. fadd (fdiv (Fin (real (k + 1))) frate) (last ft))
                          [0..<nframes - length ft]
                   else [])"
  using assms
  by (auto simp: extrapolate_video_def ebind_Inr_iff split: list.splits if_splits
           dest!: py_index_last_Inr)

lemma missed_frames_finite:
  assumes "missed_frames frate d = Inr n"
  shows "isfinite frate \<and> isfinite d"
  using assms
  by (cases frate; cases d)
     (auto simp: missed_frames_def ebind_Inr_iff to_int32_def split: if_splits)

lemma fsub_finite:
  assumes "isfinite (fsub a b)"
  shows "\<exists>x y. a = Fin y \<and> b = Fin x"
  using assms by (cases a; cases b) (simp_all add: fsub_def)



end
